theory Spec2Isabelle
  imports Main "HOL-Library.AList"
begin

section \<open>Data model\<close>

text \<open>
  The relational store, as the queries of \<^verbatim>\<open>scheduler.js\<close>, \<^verbatim>\<open>routes/sync.js\<close> and
  \<^verbatim>\<open>routes/channels.js\<close> read and write it. A table is the list of its rows, in the
  order the store returns them. Of \<^verbatim>\<open>channel\<close> only the columns those queries touch
  are kept; \<^verbatim>\<open>sync_schedule\<close> may be NULL, hence the option. Of \<^verbatim>\<open>sync_log\<close> the
  queries name \<^verbatim>\<open>channel_id\<close>, \<^verbatim>\<open>status\<close>, \<^verbatim>\<open>started_at\<close>, \<^verbatim>\<open>completed_at\<close> and
  \<^verbatim>\<open>errors\<close>; the run identifier and the mode of a record are from the layout of the
  run log in the specification. Times are natural numbers.
\<close>

record channel_row =
  ch_id :: string
  sync_schedule :: "string option"
  api_key :: string
  sync_enabled :: bool

datatype run_status = Running | Completed | Failed | Cancelled

record sync_log_row =
  log_id :: nat
  channel_id :: string
  sync_type :: string
  status :: run_status
  started_at :: nat
  completed_at :: "nat option"
  errors :: "string option"

text \<open>
  Modelled from the spec: the CancellationRegistry held by the sync service
  (\<^verbatim>\<open>services/sync.js\<close> is not among the sources). The spec describes it as the
  process-wide set of entity identifiers flagged for cancellation, each with the time of
  the request, with \<^verbatim>\<open>request(entityId)\<close>, \<^verbatim>\<open>requestAll()\<close> and
  \<^verbatim>\<open>consume(entityId)\<close>. \<open>all_flag\<close> records a \<^verbatim>\<open>requestAll()\<close> with its time,
  and \<open>all_seen\<close> the entities whose flag from that request has been consumed.
\<close>

record registry =
  flags :: "(string \<times> nat) list"
  all_flag :: "nat option"
  all_seen :: "string list"

text \<open>
  Everything outside the scheduler object: the two tables, the registry and the clock
  that \<^verbatim>\<open>CURRENT_TIMESTAMP\<close> reads.
\<close>

record world =
  channel :: "channel_row list"
  sync_log :: "sync_log_row list"
  cancellation :: registry
  clock :: nat

datatype js_error = Error string

text \<open>
  The sync service, \<^verbatim>\<open>require('./sync')\<close>, is a collaborator of the scheduler and of the
  routes. The scheduler is modelled for any service: a service is the three methods the
  sources call, each a function on the world that raises (\<open>Inl\<close>) or returns.
\<close>

record 'r sync_service =
  incrementalSync :: "string \<Rightarrow> string \<Rightarrow> world \<Rightarrow> (js_error + 'r) \<times> world"
  fullSync :: "string \<Rightarrow> string \<Rightarrow> world \<Rightarrow> (js_error + 'r) \<times> world"
  cancelSync :: "string option \<Rightarrow> world \<Rightarrow> world"

section \<open>The scheduler (\<^verbatim>\<open>services/scheduler.js\<close>)\<close>

text \<open>
  A node-cron task object is a heap object: \<open>tasks\<close> is that heap, a handle is an index
  into it, and \<^verbatim>\<open>cron.schedule\<close> allocates at the end. The callback of a task is a
  closure over \<^verbatim>\<open>channelId\<close> and \<^verbatim>\<open>channel\<close>; the two captured values it reads are
  fields of the task. \<open>cron_calls\<close> lists the calls made into node-cron, in order, and
  \<open>console_error\<close> the lines written with \<^verbatim>\<open>console.error\<close>.

  node-cron is a library, not code of this repository. \<^verbatim>\<open>cron.schedule\<close> throws on an
  expression it does not accept, and \<^verbatim>\<open>registerChannel\<close> catches that. Which
  expressions node-cron accepts is a parameter of the model, \<open>validate\<close>: it gives
  the error thrown for an expression, or \<open>None\<close> for one that is accepted. A query of
  the store is taken to return.
\<close>

type_synonym cron_validation = "string \<Rightarrow> js_error option"

record cron_task =
  task_expr :: string
  task_channel :: string
  task_api_key :: string
  task_running :: bool

datatype cron_call = Scheduled nat string | Refused string | Stopped nat

record system =
  wld :: world
  jobs :: "(string \<times> nat) list"
  tasks :: "cron_task list"
  cron_calls :: "cron_call list"
  console_error :: "string list"

definition new_Scheduler :: "world \<Rightarrow> system" where
  "new_Scheduler w =
     \<lparr>wld = w, jobs = [], tasks = [], cron_calls = [], console_error = []\<rparr>"

text \<open>
  \<^verbatim>\<open>cron.schedule(cronTime, callback)\<close>: throws when node-cron does not accept the
  expression, and otherwise creates a running task and returns it.
\<close>

definition cron_schedule ::
  "cron_validation \<Rightarrow> string \<Rightarrow> string \<Rightarrow> string \<Rightarrow> system \<Rightarrow> (js_error + nat) \<times> system" where
  "cron_schedule validate cronTime channelId key s =
     (case validate cronTime of
        Some e \<Rightarrow> (Inl e, s\<lparr>cron_calls := cron_calls s @ [Refused cronTime]\<rparr>)
      | None \<Rightarrow>
          (Inr (length (tasks s)),
           s\<lparr>tasks := tasks s @
                [\<lparr>task_expr = cronTime, task_channel = channelId, task_api_key = key,
                  task_running = True\<rparr>],
             cron_calls := cron_calls s @ [Scheduled (length (tasks s)) cronTime]\<rparr>))"

text \<open>
  \<^verbatim>\<open>job.stop()\<close>. A handle held in \<open>jobs\<close> always points into the heap (see \<open>wf\<close>
  below); for any other index the list update leaves the heap as it is.
\<close>

definition job_stop :: "nat \<Rightarrow> system \<Rightarrow> system" where
  "job_stop h s =
     s\<lparr>tasks := (tasks s)[h := (tasks s ! h)\<lparr>task_running := False\<rparr>],
       cron_calls := cron_calls s @ [Stopped h]\<rparr>"

definition default_cron :: string where
  "default_cron = ''0 2 * * *''"

text \<open>\<^verbatim>\<open>channel.sync_schedule || '0 2 * * *'\<close>: NULL and the empty string are falsy.\<close>

definition cronTime_of :: "channel_row \<Rightarrow> string" where
  "cronTime_of ch =
     (case sync_schedule ch of
        None \<Rightarrow> default_cron
      | Some e \<Rightarrow> if e = [] then default_cron else e)"

text \<open>\<^verbatim>\<open>SELECT ... FROM channel WHERE id = $1\<close>\<close>

definition channel_by_id :: "string \<Rightarrow> world \<Rightarrow> channel_row list" where
  "channel_by_id channelId w = filter (\<lambda>r. ch_id r = channelId) (channel w)"

text \<open>\<^verbatim>\<open>SELECT ... FROM channel WHERE sync_enabled = true\<close>\<close>

definition enabled_channels :: "world \<Rightarrow> channel_row list" where
  "enabled_channels w = filter sync_enabled (channel w)"

text \<open>
  \<^verbatim>\<open>registerChannel\<close>. The whole body is in a \<^verbatim>\<open>try\<close>: when \<^verbatim>\<open>cron.schedule\<close>
  throws, the old job has been stopped already, no job is set, and the \<^verbatim>\<open>catch\<close>
  (lines 75-77) writes the error to the console and returns.
\<close>

definition registerChannel :: "cron_validation \<Rightarrow> string \<Rightarrow> system \<Rightarrow> system" where
  "registerChannel validate channelId s =
     (case channel_by_id channelId (wld s) of
        [] \<Rightarrow>
          s\<lparr>console_error := console_error s @
               [''Channel '' @ channelId @ '' not found in database'']\<rparr>
      | ch # _ \<Rightarrow>
          if \<not> sync_enabled ch then s
          else
            let s1 = (case map_of (jobs s) channelId of
                        None \<Rightarrow> s
                      | Some h \<Rightarrow> job_stop h s)
            in (case cron_schedule validate (cronTime_of ch) channelId (api_key ch) s1 of
                  (Inl (Error msg), s2) \<Rightarrow>
                    s2\<lparr>console_error := console_error s2 @
                         [''Error registering channel '' @ channelId @ '': '' @ msg]\<rparr>
                | (Inr job, s2) \<Rightarrow> s2\<lparr>jobs := AList.update channelId job (jobs s2)\<rparr>))"

definition unregisterChannel :: "string \<Rightarrow> system \<Rightarrow> system" where
  "unregisterChannel channelId s =
     (case map_of (jobs s) channelId of
        None \<Rightarrow> s
      | Some h \<Rightarrow>
          (let s1 = job_stop h s in s1\<lparr>jobs := AList.delete channelId (jobs s1)\<rparr>))"

definition updateChannel :: "cron_validation \<Rightarrow> string \<Rightarrow> system \<Rightarrow> system" where
  "updateChannel validate channelId s =
     registerChannel validate channelId (unregisterChannel channelId s)"

definition initialize :: "cron_validation \<Rightarrow> system \<Rightarrow> system" where
  "initialize validate s =
     fold (registerChannel validate) (map ch_id (enabled_channels (wld s))) s"

definition stopAll :: "system \<Rightarrow> system" where
  "stopAll s = (fold (\<lambda>(channelId, h). job_stop h) (jobs s) s)\<lparr>jobs := []\<rparr>"

text \<open>
  The callback passed to \<^verbatim>\<open>cron.schedule\<close>, with its two captured values as
  arguments. The \<^verbatim>\<open>try\<close> around the call of the service catches whatever it raises.
\<close>

definition scheduled_sync :: "'r sync_service \<Rightarrow> string \<Rightarrow> string \<Rightarrow> system \<Rightarrow> system" where
  "scheduled_sync svc channelId key s =
     (case incrementalSync svc channelId key (wld s) of
        (Inr r, w') \<Rightarrow> s\<lparr>wld := w'\<rparr>
      | (Inl (Error msg), w') \<Rightarrow>
          s\<lparr>wld := w',
            console_error := console_error s @
              [''Scheduled sync failed for '' @ channelId @ '': '' @ msg]\<rparr>)"

text \<open>node-cron runs the callback of a task at its occurrences while the task is not stopped.\<close>

definition fire :: "'r sync_service \<Rightarrow> nat \<Rightarrow> system \<Rightarrow> system" where
  "fire svc h s =
     (if h < length (tasks s) \<and> task_running (tasks s ! h)
      then scheduled_sync svc (task_channel (tasks s ! h)) (task_api_key (tasks s ! h)) s
      else s)"

text \<open>
  \<^verbatim>\<open>triggerManualSync\<close>. Both branches choose the method of the service by
  \<^verbatim>\<open>syncType === 'full'\<close>.
\<close>

definition sync_by_type ::
  "'r sync_service \<Rightarrow> string \<Rightarrow> string \<Rightarrow> string \<Rightarrow> world \<Rightarrow> (js_error + 'r) \<times> world" where
  "sync_by_type svc syncType =
     (if syncType = ''full'' then fullSync svc else incrementalSync svc)"

text \<open>
  The loop over \<^verbatim>\<open>result.rows\<close> (lines 120-128): each result is pushed onto
  \<^verbatim>\<open>results\<close>; the loop body has no handler of its own, so a call that raises leaves
  the loop.
\<close>

fun sync_rows ::
  "'r sync_service \<Rightarrow> string \<Rightarrow> channel_row list \<Rightarrow> 'r list \<Rightarrow> world \<Rightarrow>
   (js_error + 'r list) \<times> world" where
  "sync_rows svc syncType [] results w = (Inr results, w)"
| "sync_rows svc syncType (ch # rows) results w =
     (case sync_by_type svc syncType (ch_id ch) (api_key ch) w of
        (Inl e, w') \<Rightarrow> (Inl e, w')
      | (Inr r, w') \<Rightarrow> sync_rows svc syncType rows (results @ [r]) w')"

datatype 'r manual_result = All_channels bool nat | One_channel 'r

definition sync_all_enabled ::
  "'r sync_service \<Rightarrow> string \<Rightarrow> world \<Rightarrow> (js_error + 'r manual_result) \<times> world" where
  "sync_all_enabled svc syncType w =
     (case sync_rows svc syncType (enabled_channels w) [] w of
        (Inl e, w') \<Rightarrow> (Inl e, w')
      | (Inr results, w') \<Rightarrow> (Inr (All_channels True (length results)), w'))"

definition sync_one ::
  "'r sync_service \<Rightarrow> string \<Rightarrow> string \<Rightarrow> world \<Rightarrow> (js_error + 'r manual_result) \<times> world" where
  "sync_one svc syncType channelId w =
     (case channel_by_id channelId w of
        [] \<Rightarrow> (Inl (Error (''Channel '' @ channelId @ '' not found'')), w)
      | ch # _ \<Rightarrow>
          (case sync_by_type svc syncType (ch_id ch) (api_key ch) w of
             (Inl e, w') \<Rightarrow> (Inl e, w')
           | (Inr r, w') \<Rightarrow> (Inr (One_channel r), w')))"

text \<open>\<^verbatim>\<open>!channelId\<close>: \<^verbatim>\<open>null\<close> and the empty string are falsy.\<close>

definition falsy :: "string option \<Rightarrow> bool" where
  "falsy channelId = (case channelId of None \<Rightarrow> True | Some c \<Rightarrow> c = [])"

text \<open>
  The outer \<^verbatim>\<open>catch\<close> logs the error and throws it again. \<open>the\<close> is applied to a
  \<open>channelId\<close> that is not falsy, which is a \<open>Some\<close>.
\<close>

definition triggerManualSync ::
  "'r sync_service \<Rightarrow> string \<Rightarrow> string option \<Rightarrow> system \<Rightarrow>
   (js_error + 'r manual_result) \<times> system" where
  "triggerManualSync svc syncType channelId s =
     (case (if falsy channelId then sync_all_enabled svc syncType (wld s)
            else sync_one svc syncType (the channelId) (wld s)) of
        (Inl (Error msg), w') \<Rightarrow>
          (Inl (Error msg),
           s\<lparr>wld := w', console_error := console_error s @ [''Manual sync failed: '' @ msg]\<rparr>)
      | (Inr r, w') \<Rightarrow> (Inr r, s\<lparr>wld := w'\<rparr>))"

section \<open>The sync routes (\<^verbatim>\<open>routes/sync.js\<close>)\<close>

datatype response = Status nat string

text \<open>
  The two \<^verbatim>\<open>UPDATE sync_log SET status = 'cancelled', completed_at = CURRENT_TIMESTAMP,
  errors = 'Cancelled by user'\<close> statements of \<^verbatim>\<open>POST /cancel\<close>.
\<close>

definition mark_cancelled :: "nat \<Rightarrow> sync_log_row \<Rightarrow> sync_log_row" where
  "mark_cancelled now r =
     r\<lparr>status := Cancelled, completed_at := Some now, errors := Some ''Cancelled by user''\<rparr>"

definition cancel_running_of :: "string \<Rightarrow> world \<Rightarrow> world" where
  "cancel_running_of channelId w =
     w\<lparr>sync_log :=
         map (\<lambda>r. if channel_id r = channelId \<and> status r = Running
                   then mark_cancelled (clock w) r else r) (sync_log w)\<rparr>"

definition cancel_running_all :: "world \<Rightarrow> world" where
  "cancel_running_all w =
     w\<lparr>sync_log :=
         map (\<lambda>r. if status r = Running then mark_cancelled (clock w) r else r) (sync_log w)\<rparr>"

text \<open>
  \<^verbatim>\<open>POST /api/sync/cancel\<close>. \<open>syncService\<close> is what \<^verbatim>\<open>req.app.get('syncService')\<close>
  yields, \<open>channelId\<close> the field of the request body.
\<close>

definition post_cancel ::
  "'r sync_service option \<Rightarrow> string option \<Rightarrow> world \<Rightarrow> response \<times> world" where
  "post_cancel syncService channelId w =
     (case syncService of
        None \<Rightarrow> (Status 500 ''Sync service not initialized'', w)
      | Some svc \<Rightarrow>
          (let w1 = cancelSync svc channelId w;
               w2 = (if falsy channelId then cancel_running_all w1
                     else cancel_running_of (the channelId) w1)
           in (Status 200 ''Sync cancellation requested'', w2)))"

text \<open>
  \<^verbatim>\<open>GET /api/sync/progress\<close>: \<^verbatim>\<open>SELECT * FROM sync_log WHERE status = 'running'
  ORDER BY started_at DESC LIMIT 1\<close>. The handler reads nothing from the request. Of
  records with the same \<^verbatim>\<open>started_at\<close> the store may put any first; the model fixes
  one, and what is proved of the answer does not depend on which.
\<close>

definition running_latest_first :: "world \<Rightarrow> sync_log_row list" where
  "running_latest_first w =
     rev (sort_key started_at (filter (\<lambda>r. status r = Running) (sync_log w)))"

datatype progress = Not_running | Running_sync sync_log_row

definition get_progress :: "world \<Rightarrow> progress" where
  "get_progress w =
     (case take 1 (running_latest_first w) of
        [] \<Rightarrow> Not_running
      | r # _ \<Rightarrow> Running_sync r)"

section \<open>The channel routes (\<^verbatim>\<open>routes/channels.js\<close>)\<close>

text \<open>
  \<^verbatim>\<open>PUT /api/channels/:id\<close>. A field of the body that is \<^verbatim>\<open>undefined\<close> is \<open>None\<close>.
  The \<^verbatim>\<open>UPDATE\<close> sets exactly the columns whose field is defined (and
  \<^verbatim>\<open>updated_at\<close>, a column not kept here); the scheduler is told only when
  \<^verbatim>\<open>syncEnabled\<close> or \<^verbatim>\<open>syncSchedule\<close> is.
\<close>

definition set_columns ::
  "bool option \<Rightarrow> string option option \<Rightarrow> string option \<Rightarrow> channel_row \<Rightarrow> channel_row" where
  "set_columns syncEnabled syncSchedule apiKey r =
     (let r1 = (case syncEnabled of None \<Rightarrow> r | Some b \<Rightarrow> r\<lparr>sync_enabled := b\<rparr>);
          r2 = (case syncSchedule of None \<Rightarrow> r1 | Some e \<Rightarrow> r1\<lparr>sync_schedule := e\<rparr>)
      in (case apiKey of None \<Rightarrow> r2 | Some k \<Rightarrow> r2\<lparr>api_key := k\<rparr>))"

definition put_channel ::
  "cron_validation \<Rightarrow> string \<Rightarrow> bool option \<Rightarrow> string option option \<Rightarrow> string option \<Rightarrow>
   system \<Rightarrow> response \<times> system" where
  "put_channel validate ident syncEnabled syncSchedule apiKey s =
     (if channel_by_id ident (wld s) = [] then (Status 404 ''Channel not found'', s)
      else if syncEnabled = None \<and> syncSchedule = None \<and> apiKey = None
      then (Status 400 ''No fields to update'', s)
      else
        (let w' = (wld s)\<lparr>channel :=
                     map (\<lambda>r. if ch_id r = ident
                               then set_columns syncEnabled syncSchedule apiKey r else r)
                       (channel (wld s))\<rparr>;
             s1 = s\<lparr>wld := w'\<rparr>;
             s2 = (if syncEnabled \<noteq> None \<or> syncSchedule \<noteq> None
                   then updateChannel validate ident s1 else s1)
         in (Status 200 ''Channel updated successfully'', s2)))"

section \<open>The sync service, from the specification\<close>

text \<open>
  \<^verbatim>\<open>services/sync.js\<close>, the sync service with its run log and its cancellation
  registry, is not among the sources. Each definition of this section is written from
  the words of the specification (sections 3, 4.2, 4.3, 4.4 and 6).
\<close>

text \<open>
  Modelled from the spec: the generated run identifier of RunLogStore's \<^verbatim>\<open>open\<close>
  (\<^verbatim>\<open>services/sync.js\<close> is missing), here one more than the largest identifier in
  the log.
\<close>

definition fresh_run_id :: "sync_log_row list \<Rightarrow> nat" where
  "fresh_run_id rows = Suc (fold max (map log_id rows) 0)"

text \<open>
  Modelled from the spec: RunLogStore's \<^verbatim>\<open>open(entityId, mode)\<close>
  (\<^verbatim>\<open>services/sync.js\<close> is missing), which "inserts a running record, returns its
  identifier", with \<^verbatim>\<open>started_at\<close> set at creation.
\<close>

definition log_open :: "string \<Rightarrow> string \<Rightarrow> world \<Rightarrow> nat \<times> world" where
  "log_open entityId mode w =
     (fresh_run_id (sync_log w),
      w\<lparr>sync_log := sync_log w @
           [\<lparr>log_id = fresh_run_id (sync_log w), channel_id = entityId, sync_type = mode,
             status = Running, started_at = clock w, completed_at = None,
             errors = None\<rparr>]\<rparr>)"

text \<open>
  Modelled from the spec: RunLogStore's \<^verbatim>\<open>close(runId, state, errorDetail?)\<close>
  (\<^verbatim>\<open>services/sync.js\<close> is missing), which "sets completed_at = now and the terminal
  state; fails loudly if runId does not exist".
\<close>

definition log_close ::
  "nat \<Rightarrow> run_status \<Rightarrow> string option \<Rightarrow> world \<Rightarrow> (js_error + unit) \<times> world" where
  "log_close runId st detail w =
     (if runId \<in> log_id ` set (sync_log w)
      then (Inr (),
            w\<lparr>sync_log :=
                map (\<lambda>r. if log_id r = runId
                          then r\<lparr>status := st, completed_at := Some (clock w), errors := detail\<rparr>
                          else r) (sync_log w)\<rparr>)
      else (Inl (Error ''run record not found''), w))"

text \<open>
  Modelled from the spec: CancellationRegistry's \<^verbatim>\<open>request(entityId)\<close>
  (\<^verbatim>\<open>services/sync.js\<close> is missing), which records the intent: the entity is flagged,
  with the time of the request.
\<close>

definition request :: "string \<Rightarrow> world \<Rightarrow> world" where
  "request entityId w =
     w\<lparr>cancellation :=
         (cancellation w)\<lparr>flags := AList.update entityId (clock w) (flags (cancellation w))\<rparr>\<rparr>"

text \<open>
  Modelled from the spec: CancellationRegistry's \<^verbatim>\<open>requestAll()\<close>
  (\<^verbatim>\<open>services/sync.js\<close> is missing), which records the intent to cancel all that is
  running. A new request for all is one that no entity has consumed yet.
\<close>

definition requestAll :: "world \<Rightarrow> world" where
  "requestAll w =
     w\<lparr>cancellation := (cancellation w)\<lparr>all_flag := Some (clock w), all_seen := []\<rparr>\<rparr>"

text \<open>
  Modelled from the spec: the test a run makes at a checkpoint, whether cancellation was
  requested for its entity (\<^verbatim>\<open>services/sync.js\<close> is missing): by a request for the
  entity, or by a request for all that the entity has not consumed.
\<close>

definition flagged :: "string \<Rightarrow> world \<Rightarrow> bool" where
  "flagged entityId w =
     (map_of (flags (cancellation w)) entityId \<noteq> None \<or>
      (all_flag (cancellation w) \<noteq> None \<and> entityId \<notin> set (all_seen (cancellation w))))"

text \<open>
  Modelled from the spec: CancellationRegistry's \<^verbatim>\<open>consume(entityId) -> bool\<close>
  (\<^verbatim>\<open>services/sync.js\<close> is missing), which "checks and clears the flag for entityId",
  so that "consume returns false on a second call" (section 8): the flag of the entity
  is removed, and a request for all counts as consumed by the entity.
\<close>

definition consume :: "string \<Rightarrow> world \<Rightarrow> bool \<times> world" where
  "consume entityId w =
     (flagged entityId w,
      w\<lparr>cancellation :=
          (cancellation w)
            \<lparr>flags := AList.delete entityId (flags (cancellation w)),
             all_seen := (if all_flag (cancellation w) \<noteq> None
                          then List.insert entityId (all_seen (cancellation w))
                          else all_seen (cancellation w))\<rparr>\<rparr>)"

text \<open>
  Modelled from the spec: \<^verbatim>\<open>cancelSync(entityId?)\<close> of the sync service
  (\<^verbatim>\<open>services/sync.js\<close> is missing), which "sets the flag(s) in CancellationRegistry"
  and, with the entity omitted, "cancels all running".
\<close>

definition spec_cancelSync :: "string option \<Rightarrow> world \<Rightarrow> world" where
  "spec_cancelSync entityId w =
     (case entityId of None \<Rightarrow> requestAll w | Some c \<Rightarrow> request c w)"

text \<open>
  Modelled from the spec: the flag that a cancel request is to leave in the registry
  (\<^verbatim>\<open>services/sync.js\<close> is missing): the flag of the entity, or the flag for all when
  the entity is omitted.
\<close>

definition cancel_requested :: "string option \<Rightarrow> world \<Rightarrow> bool" where
  "cancel_requested entityId w =
     (case entityId of
        None \<Rightarrow> all_flag (cancellation w) \<noteq> None
      | Some c \<Rightarrow> map_of (flags (cancellation w)) c \<noteq> None)"

text \<open>
  Modelled from the spec: the question at the entry of the orchestrator
  (\<^verbatim>\<open>services/sync.js\<close> is missing), "is there already a RunRecord for entityId in
  state running?".
\<close>

definition has_running :: "string \<Rightarrow> world \<Rightarrow> bool" where
  "has_running entityId w =
     (filter (\<lambda>r. channel_id r = entityId \<and> status r = Running) (sync_log w) \<noteq> [])"

text \<open>
  Modelled from the spec: the signal "already running" with which the entry rejects an
  invocation (\<^verbatim>\<open>services/sync.js\<close> is missing).
\<close>

definition already_running :: js_error where
  "already_running = Error ''already running''"

text \<open>
  Modelled from the spec: the entry of the SyncOrchestrator (\<^verbatim>\<open>incrementalSync\<close> and
  \<^verbatim>\<open>fullSync\<close> of \<^verbatim>\<open>services/sync.js\<close>, which is missing), section 4.2: "on
  invocation for (entityId, mode), first check: is there already a RunRecord for entityId
  in state running? If yes, reject the new invocation (signal already running) rather
  than starting a second one"; "On accept: insert a RunRecord with state running". The
  same paragraph remarks that the source may not perform the check and prefers the
  design with the check; the entry is modelled as the specification states it, with
  the check.
\<close>

definition orch_begin :: "string \<Rightarrow> string \<Rightarrow> world \<Rightarrow> (js_error + nat) \<times> world" where
  "orch_begin entityId mode w =
     (if has_running entityId w then (Inl already_running, w)
      else (case log_open entityId mode w of (runId, w') \<Rightarrow> (Inr runId, w')))"

text \<open>
  Modelled from the spec: the contract of the external fetch/download pipeline, section
  6 (its code is missing): \<^verbatim>\<open>run(entityId, credentials, mode) -> success | raises
  error\<close>.
\<close>

datatype pipeline_result = Succeeds | Raises string

type_synonym pipeline = "string \<Rightarrow> string \<Rightarrow> string \<Rightarrow> pipeline_result"

text \<open>
  Modelled from the spec: the terminal transition of a run (\<^verbatim>\<open>services/sync.js\<close> is
  missing): the record is closed, and the run ends with \<open>result\<close> unless closing
  fails, which is surfaced.
\<close>

definition close_as ::
  "nat \<Rightarrow> run_status \<Rightarrow> string option \<Rightarrow> (js_error + run_status) \<Rightarrow> world \<Rightarrow>
   (js_error + run_status) \<times> world" where
  "close_as runId st detail result w =
     (case log_close runId st detail w of
        (Inl e, w') \<Rightarrow> (Inl e, w')
      | (Inr _, w') \<Rightarrow> (result, w'))"

text \<open>
  Modelled from the spec: the body of a run of the SyncOrchestrator
  (\<^verbatim>\<open>services/sync.js\<close> is missing), section 4.2. A cancellation flag seen at the
  checkpoint closes the record as cancelled with "Cancelled by user", clears the flag
  and returns without an error; a pipeline that completes closes it as completed; a
  pipeline that raises closes it as failed with the message, and the error goes to the
  caller. One checkpoint, before the pipeline, stands for the checkpoints of the run.
\<close>

definition orch_body ::
  "pipeline \<Rightarrow> nat \<Rightarrow> string \<Rightarrow> string \<Rightarrow> string \<Rightarrow> world \<Rightarrow> (js_error + run_status) \<times> world" where
  "orch_body run runId entityId credentials mode w =
     (case consume entityId w of
        (True, w1) \<Rightarrow> close_as runId Cancelled (Some ''Cancelled by user'') (Inr Cancelled) w1
      | (False, w1) \<Rightarrow>
          (case run entityId credentials mode of
             Succeeds \<Rightarrow> close_as runId Completed None (Inr Completed) w1
           | Raises msg \<Rightarrow> close_as runId Failed (Some msg) (Inl (Error msg)) w1))"

text \<open>
  Modelled from the spec: one run of the SyncOrchestrator from entry to terminal state
  (\<^verbatim>\<open>services/sync.js\<close> is missing), when no other step comes between its entry and
  its body.
\<close>

definition orchestrate ::
  "pipeline \<Rightarrow> string \<Rightarrow> string \<Rightarrow> string \<Rightarrow> world \<Rightarrow> (js_error + run_status) \<times> world" where
  "orchestrate run mode entityId credentials w =
     (case orch_begin entityId mode w of
        (Inl e, w') \<Rightarrow> (Inl e, w')
      | (Inr runId, w') \<Rightarrow> orch_body run runId entityId credentials mode w')"

text \<open>
  Modelled from the spec: the sync service as the specification describes it
  (\<^verbatim>\<open>services/sync.js\<close> is missing): both modes run the orchestrator, and
  \<^verbatim>\<open>cancelSync\<close> sets the flag.
\<close>

definition spec_service :: "pipeline \<Rightarrow> run_status sync_service" where
  "spec_service run =
     \<lparr>incrementalSync = orchestrate run ''incremental'',
      fullSync = orchestrate run ''full'',
      cancelSync = spec_cancelSync\<rparr>"

section \<open>Predicates on states\<close>

text \<open>
  The two tests \<^verbatim>\<open>registerChannel\<close> makes before it touches a job: the channel is found
  and its \<^verbatim>\<open>sync_enabled\<close> is true.
\<close>

definition registrable :: "string \<Rightarrow> world \<Rightarrow> bool" where
  "registrable channelId w =
     (case channel_by_id channelId w of [] \<Rightarrow> False | ch # _ \<Rightarrow> sync_enabled ch)"

text \<open>The handles of the tasks that are running for a channel: its active triggers.\<close>

definition armed_for :: "string \<Rightarrow> system \<Rightarrow> nat list" where
  "armed_for channelId s =
     filter (\<lambda>h. task_running (tasks s ! h) \<and> task_channel (tasks s ! h) = channelId)
       [0..<length (tasks s)]"

text \<open>
  The job map and the heap of tasks agree: a job is a task of its channel (a stopped
  one, when node-cron refused the registration that was to replace it), and a running
  task is the job of its channel.
\<close>

definition wf :: "system \<Rightarrow> bool" where
  "wf s \<longleftrightarrow>
     (\<forall>c h. map_of (jobs s) c = Some h \<longrightarrow>
        h < length (tasks s) \<and> task_channel (tasks s ! h) = c) \<and>
     (\<forall>h < length (tasks s). task_running (tasks s ! h) \<longrightarrow>
        map_of (jobs s) (task_channel (tasks s ! h)) = Some h)"

text \<open>
  The states a scheduler goes through: created by the constructor, then changed by its
  own methods, while the routes, the sync service and the clock change the world and
  the console around it.
\<close>

inductive reachable :: "cron_validation \<Rightarrow> system \<Rightarrow> bool"
  for validate :: cron_validation where
  created: "reachable validate (new_Scheduler w)"
| registered: "reachable validate s \<Longrightarrow> reachable validate (registerChannel validate c s)"
| unregistered: "reachable validate s \<Longrightarrow> reachable validate (unregisterChannel c s)"
| updated: "reachable validate s \<Longrightarrow> reachable validate (updateChannel validate c s)"
| initialized: "reachable validate s \<Longrightarrow> reachable validate (initialize validate s)"
| stopped: "reachable validate s \<Longrightarrow> reachable validate (stopAll s)"
| outside: "reachable validate s \<Longrightarrow> reachable validate (s\<lparr>wld := w, console_error := l\<rparr>)"

section \<open>Example states\<close>

definition example_world :: world where
  "example_world =
     \<lparr>channel =
        [\<lparr>ch_id = ''A'', sync_schedule = None, api_key = ''k1'', sync_enabled = True\<rparr>,
         \<lparr>ch_id = ''B'', sync_schedule = Some ''0 3 * * *'', api_key = ''k2'',
           sync_enabled = True\<rparr>,
         \<lparr>ch_id = ''C'', sync_schedule = Some [], api_key = ''k3'', sync_enabled = True\<rparr>,
         \<lparr>ch_id = ''D'', sync_schedule = Some ''0 4 * * *'', api_key = ''k4'',
           sync_enabled = False\<rparr>],
      sync_log = [],
      cancellation = \<lparr>flags = [], all_flag = None, all_seen = []\<rparr>,
      clock = 7\<rparr>"

text \<open>
  A stand-in for the validation of node-cron in the examples: it refuses the expression
  \<^verbatim>\<open>61 2 * * *\<close>, whose minute is out of range, as node-cron does, and accepts the
  other expressions of the examples.
\<close>

definition example_validate :: cron_validation where
  "example_validate cronTime =
     (if cronTime = ''61 2 * * *''
      then Some (Error ''61 is a invalid expression for minute'')
      else None)"

text \<open>A pipeline that raises for channel B and succeeds for every other channel.\<close>

definition example_pipeline :: pipeline where
  "example_pipeline entityId credentials mode =
     (if entityId = ''B'' then Raises ''quota exceeded'' else Succeeds)"

text \<open>A pipeline that succeeds for every channel.\<close>

definition calm_pipeline :: pipeline where
  "calm_pipeline entityId credentials mode = Succeeds"

text \<open>The scheduler after start-up on the example world.\<close>

definition example_started :: system where
  "example_started = initialize example_validate (new_Scheduler example_world)"

text \<open>A service that raises, with the credential it was called with as its message.\<close>

definition probe_service :: "unit sync_service" where
  "probe_service =
     \<lparr>incrementalSync = (\<lambda>channelId key w. (Inl (Error (''incremental with '' @ key)), w)),
      fullSync = (\<lambda>channelId key w. (Inl (Error (''full with '' @ key)), w)),
      cancelSync = (\<lambda>channelId w. w)\<rparr>"

text \<open>A run log with two runs in progress, of channels A and C.\<close>

definition two_running :: world where
  "two_running =
     example_world\<lparr>sync_log :=
       [\<lparr>log_id = 1, channel_id = ''A'', sync_type = ''full'', status = Running,
          started_at = 3, completed_at = None, errors = None\<rparr>,
        \<lparr>log_id = 2, channel_id = ''B'', sync_type = ''incremental'', status = Completed,
          started_at = 4, completed_at = Some 5, errors = None\<rparr>,
        \<lparr>log_id = 3, channel_id = ''C'', sync_type = ''incremental'', status = Running,
          started_at = 6, completed_at = None, errors = None\<rparr>]\<rparr>"

text \<open>
  The started scheduler after the channel table has changed: channel A has a new
  recurrence expression.
\<close>

definition example_rescheduled :: system where
  "example_rescheduled =
     example_started
       \<lparr>wld := example_world
          \<lparr>channel :=
             [\<lparr>ch_id = ''A'', sync_schedule = Some ''0 */6 * * *'', api_key = ''k1'',
                sync_enabled = True\<rparr>,
              \<lparr>ch_id = ''B'', sync_schedule = Some ''0 3 * * *'', api_key = ''k2'',
                sync_enabled = True\<rparr>,
              \<lparr>ch_id = ''C'', sync_schedule = Some [], api_key = ''k3'',
                sync_enabled = True\<rparr>,
              \<lparr>ch_id = ''D'', sync_schedule = Some ''0 4 * * *'', api_key = ''k4'',
                sync_enabled = False\<rparr>]\<rparr>,
        console_error := []\<rparr>"

text \<open>
  The started scheduler after the channel table has changed in another way: the
  recurrence expression of channel A is now one that node-cron refuses.
\<close>

definition example_refused :: system where
  "example_refused =
     example_started
       \<lparr>wld := example_world
          \<lparr>channel :=
             [\<lparr>ch_id = ''A'', sync_schedule = Some ''61 2 * * *'', api_key = ''k1'',
                sync_enabled = True\<rparr>,
              \<lparr>ch_id = ''B'', sync_schedule = Some ''0 3 * * *'', api_key = ''k2'',
                sync_enabled = True\<rparr>,
              \<lparr>ch_id = ''C'', sync_schedule = Some [], api_key = ''k3'',
                sync_enabled = True\<rparr>,
              \<lparr>ch_id = ''D'', sync_schedule = Some ''0 4 * * *'', api_key = ''k4'',
                sync_enabled = False\<rparr>]\<rparr>,
        console_error := []\<rparr>"

text \<open>The example world after the run of channel A, and after the failed run of B.\<close>

definition after_A :: world where
  "after_A = example_world\<lparr>sync_log :=
      [\<lparr>log_id = 1, channel_id = ''A'', sync_type = ''incremental'', status = Completed,
        started_at = 7, completed_at = Some 7, errors = None\<rparr>]\<rparr>"

definition after_B :: world where
  "after_B = example_world\<lparr>sync_log :=
      [\<lparr>log_id = 1, channel_id = ''A'', sync_type = ''incremental'', status = Completed,
        started_at = 7, completed_at = Some 7, errors = None\<rparr>,
       \<lparr>log_id = 2, channel_id = ''B'', sync_type = ''incremental'', status = Failed,
        started_at = 7, completed_at = Some 7, errors = Some ''quota exceeded''\<rparr>]\<rparr>"

section \<open>The run log as a state machine\<close>



section \<open>What registration does to the state\<close>

lemma job_stop_sel [simp]:
  "wld (job_stop h s) = wld s"
  "jobs (job_stop h s) = jobs s"
  "tasks (job_stop h s) = (tasks s)[h := (tasks s ! h)\<lparr>task_running := False\<rparr>]"
  "cron_calls (job_stop h s) = cron_calls s @ [Stopped h]"
  "console_error (job_stop h s) = console_error s"
  by (simp_all add: job_stop_def)

lemma registerChannel_accepted:
  "channel_by_id c (wld s) = ch # rest \<Longrightarrow> sync_enabled ch \<Longrightarrow>
   validate (cronTime_of ch) = None \<Longrightarrow>
   registerChannel validate c s =
     (let s1 = (case map_of (jobs s) c of None \<Rightarrow> s | Some h \<Rightarrow> job_stop h s)
      in s1\<lparr>tasks := tasks s1 @
              [\<lparr>task_expr = cronTime_of ch, task_channel = c, task_api_key = api_key ch,
                task_running = True\<rparr>],
            cron_calls := cron_calls s1 @ [Scheduled (length (tasks s1)) (cronTime_of ch)],
            jobs := AList.update c (length (tasks s1)) (jobs s1)\<rparr>)"
  by (simp add: registerChannel_def cron_schedule_def Let_def)

lemma registerChannel_refused:
  "channel_by_id c (wld s) = ch # rest \<Longrightarrow> sync_enabled ch \<Longrightarrow>
   validate (cronTime_of ch) = Some (Error msg) \<Longrightarrow>
   registerChannel validate c s =
     (let s1 = (case map_of (jobs s) c of None \<Rightarrow> s | Some h \<Rightarrow> job_stop h s)
      in s1\<lparr>cron_calls := cron_calls s1 @ [Refused (cronTime_of ch)],
            console_error := console_error s1 @
              [''Error registering channel '' @ c @ '': '' @ msg]\<rparr>)"
  by (simp add: registerChannel_def cron_schedule_def Let_def)

lemma register_captures:
  assumes "channel_by_id c (wld s) = ch # rest" "sync_enabled ch"
    and "validate (cronTime_of ch) = None"
  shows "map_of (jobs (registerChannel validate c s)) c = Some (length (tasks s))"
    and "tasks (registerChannel validate c s) ! length (tasks s) =
           \<lparr>task_expr = cronTime_of ch, task_channel = c, task_api_key = api_key ch,
             task_running = True\<rparr>"
  by (simp_all add: registerChannel_accepted [where validate = validate, OF assms] Let_def update_conv' nth_append
        split: option.splits)

section \<open>Registration of a missing or disabled channel\<close>

text \<open>
  C8. For a channel that is not found, or whose \<^verbatim>\<open>sync_enabled\<close> is false,
  \<^verbatim>\<open>registerChannel\<close> returns with the job map, the tasks, the calls into node-cron and
  the world as they were: no trigger is installed, none is stopped, and nothing is
  raised (the function has no error result; a missing channel leaves one line on the
  console).
\<close>

theorem register_skips_missing_or_disabled:
  assumes "\<not> registrable c (wld s)"
  shows "jobs (registerChannel validate c s) = jobs s \<and>
         tasks (registerChannel validate c s) = tasks s \<and>
         cron_calls (registerChannel validate c s) = cron_calls s \<and>
         wld (registerChannel validate c s) = wld s"
  using assms
  by (cases "channel_by_id c (wld s)") (simp_all add: registrable_def registerChannel_def)

theorem register_skips_missing_or_disabled_witness:
  "\<not> registrable ''D'' (wld (new_Scheduler example_world)) \<and>
   jobs (registerChannel example_validate ''D'' (new_Scheduler example_world)) = [] \<and>
   tasks (registerChannel example_validate ''D'' (new_Scheduler example_world)) = [] \<and>
   cron_calls (registerChannel example_validate ''D'' (new_Scheduler example_world)) = [] \<and>
   wld (registerChannel example_validate ''D'' (new_Scheduler example_world)) = example_world"
proof -
  have h: "\<not> registrable ''D'' (wld (new_Scheduler example_world))"
    by (simp add: registrable_def channel_by_id_def new_Scheduler_def example_world_def)
  from register_skips_missing_or_disabled [OF h] h show ?thesis
    by (simp add: new_Scheduler_def)
qed

section \<open>A manual run of one channel\<close>

text \<open>
  C7. \<^verbatim>\<open>triggerManualSync(syncType, channelId)\<close> with a channel identifier given. When
  no channel has it, the call raises "Channel ... not found" and the world, the run log
  with it, is as before. When a channel has it, whatever its \<^verbatim>\<open>sync_enabled\<close>, the
  service runs for that channel with its credential on the world as it is: its
  \<^verbatim>\<open>fullSync\<close> when the type is \<^verbatim>\<open>'full'\<close>, its \<^verbatim>\<open>incrementalSync\<close> otherwise. What
  the run returns is what the call returns, what it raises is logged and raised again,
  and in both cases the world is the one the run left.
\<close>

theorem manual_sync_one_channel:
  assumes "c \<noteq> []"
  shows "(channel_by_id c (wld s) = [] \<longrightarrow>
            triggerManualSync svc ty (Some c) s =
              (Inl (Error (''Channel '' @ c @ '' not found'')),
               s\<lparr>console_error := console_error s @
                    [''Manual sync failed: '' @ ''Channel '' @ c @ '' not found'']\<rparr>))
       \<and> (\<forall>ch rest r msg w'. channel_by_id c (wld s) = ch # rest \<longrightarrow>
            (ty = ''full'' \<and> fullSync svc c (api_key ch) (wld s) = (Inr r, w') \<longrightarrow>
               triggerManualSync svc ty (Some c) s = (Inr (One_channel r), s\<lparr>wld := w'\<rparr>)) \<and>
            (ty = ''full'' \<and> fullSync svc c (api_key ch) (wld s) = (Inl (Error msg), w') \<longrightarrow>
               triggerManualSync svc ty (Some c) s =
                 (Inl (Error msg),
                  s\<lparr>wld := w',
                    console_error := console_error s @ [''Manual sync failed: '' @ msg]\<rparr>)) \<and>
            (ty \<noteq> ''full'' \<and> incrementalSync svc c (api_key ch) (wld s) = (Inr r, w') \<longrightarrow>
               triggerManualSync svc ty (Some c) s = (Inr (One_channel r), s\<lparr>wld := w'\<rparr>)) \<and>
            (ty \<noteq> ''full'' \<and>
             incrementalSync svc c (api_key ch) (wld s) = (Inl (Error msg), w') \<longrightarrow>
               triggerManualSync svc ty (Some c) s =
                 (Inl (Error msg),
                  s\<lparr>wld := w',
                    console_error := console_error s @ [''Manual sync failed: '' @ msg]\<rparr>)))"
proof (intro conjI impI allI)
  assume "channel_by_id c (wld s) = []"
  with assms show "triggerManualSync svc ty (Some c) s =
              (Inl (Error (''Channel '' @ c @ '' not found'')),
               s\<lparr>console_error := console_error s @
                    [''Manual sync failed: '' @ ''Channel '' @ c @ '' not found'']\<rparr>)"
    by (simp add: triggerManualSync_def falsy_def sync_one_def)
next
  fix ch rest r msg w'
  assume found: "channel_by_id c (wld s) = ch # rest"
  then have "ch \<in> set (channel_by_id c (wld s))" by simp
  then have id: "ch_id ch = c" by (simp add: channel_by_id_def)
  {
    assume "ty = ''full'' \<and> fullSync svc c (api_key ch) (wld s) = (Inr r, w')"
    with assms found id
    show "triggerManualSync svc ty (Some c) s = (Inr (One_channel r), s\<lparr>wld := w'\<rparr>)"
      by (simp add: triggerManualSync_def falsy_def sync_one_def sync_by_type_def)
  next
    assume "ty = ''full'' \<and> fullSync svc c (api_key ch) (wld s) = (Inl (Error msg), w')"
    with assms found id
    show "triggerManualSync svc ty (Some c) s =
                 (Inl (Error msg),
                  s\<lparr>wld := w',
                    console_error := console_error s @ [''Manual sync failed: '' @ msg]\<rparr>)"
      by (simp add: triggerManualSync_def falsy_def sync_one_def sync_by_type_def)
  next
    assume "ty \<noteq> ''full'' \<and> incrementalSync svc c (api_key ch) (wld s) = (Inr r, w')"
    with assms found id
    show "triggerManualSync svc ty (Some c) s = (Inr (One_channel r), s\<lparr>wld := w'\<rparr>)"
      by (simp add: triggerManualSync_def falsy_def sync_one_def sync_by_type_def)
  next
    assume "ty \<noteq> ''full'' \<and>
             incrementalSync svc c (api_key ch) (wld s) = (Inl (Error msg), w')"
    with assms found id
    show "triggerManualSync svc ty (Some c) s =
                 (Inl (Error msg),
                  s\<lparr>wld := w',
                    console_error := console_error s @ [''Manual sync failed: '' @ msg]\<rparr>)"
      by (simp add: triggerManualSync_def falsy_def sync_one_def sync_by_type_def)
  }
qed

lemmas spec_run_defs =
  sync_by_type_def spec_service_def orchestrate_def orch_begin_def log_open_def fresh_run_id_def
  orch_body_def consume_def flagged_def close_as_def log_close_def has_running_def

lemma example_D:
  "channel_by_id ''D'' (wld (new_Scheduler example_world)) =
     [\<lparr>ch_id = ''D'', sync_schedule = Some ''0 4 * * *'', api_key = ''k4'',
       sync_enabled = False\<rparr>]"
  by (simp add: channel_by_id_def new_Scheduler_def example_world_def)

lemma example_full_D:
  "fullSync (spec_service example_pipeline) ''D'' ''k4'' example_world =
     (Inr Completed,
      example_world\<lparr>sync_log :=
        [\<lparr>log_id = 1, channel_id = ''D'', sync_type = ''full'', status = Completed,
          started_at = 7, completed_at = Some 7, errors = None\<rparr>]\<rparr>)"
  by (simp add: spec_run_defs example_pipeline_def example_world_def)

lemma example_incremental_D:
  "incrementalSync (spec_service example_pipeline) ''D'' ''k4'' example_world =
     (Inr Completed,
      example_world\<lparr>sync_log :=
        [\<lparr>log_id = 1, channel_id = ''D'', sync_type = ''incremental'', status = Completed,
          started_at = 7, completed_at = Some 7, errors = None\<rparr>]\<rparr>)"
  by (simp add: spec_run_defs example_pipeline_def example_world_def)

theorem manual_sync_one_channel_witness:
  "''Z'' \<noteq> [] \<and> channel_by_id ''Z'' (wld (new_Scheduler example_world)) = [] \<and>
   triggerManualSync (spec_service example_pipeline) ''full'' (Some ''Z'')
       (new_Scheduler example_world) =
     (Inl (Error ''Channel Z not found''),
      (new_Scheduler example_world)
        \<lparr>console_error := [''Manual sync failed: Channel Z not found'']\<rparr>) \<and>
   channel_by_id ''D'' (wld (new_Scheduler example_world)) =
     [\<lparr>ch_id = ''D'', sync_schedule = Some ''0 4 * * *'', api_key = ''k4'',
       sync_enabled = False\<rparr>] \<and>
   triggerManualSync (spec_service example_pipeline) ''full'' (Some ''D'')
       (new_Scheduler example_world) =
     (Inr (One_channel Completed),
      (new_Scheduler example_world)
        \<lparr>wld := example_world\<lparr>sync_log :=
           [\<lparr>log_id = 1, channel_id = ''D'', sync_type = ''full'', status = Completed,
             started_at = 7, completed_at = Some 7, errors = None\<rparr>]\<rparr>\<rparr>) \<and>
   triggerManualSync (spec_service example_pipeline) ''incremental'' (Some ''D'')
       (new_Scheduler example_world) =
     (Inr (One_channel Completed),
      (new_Scheduler example_world)
        \<lparr>wld := example_world\<lparr>sync_log :=
           [\<lparr>log_id = 1, channel_id = ''D'', sync_type = ''incremental'', status = Completed,
             started_at = 7, completed_at = Some 7, errors = None\<rparr>]\<rparr>\<rparr>)"
proof -
  let ?svc = "spec_service example_pipeline"
  let ?s = "new_Scheduler example_world"
  have z: "''Z'' \<noteq> []" and d: "''D'' \<noteq> []" by simp_all
  have e: "channel_by_id ''Z'' (wld ?s) = []"
    by (simp add: channel_by_id_def new_Scheduler_def example_world_def)
  have w: "wld ?s = example_world" by (simp add: new_Scheduler_def)
  have k: "api_key \<lparr>ch_id = ''D'', sync_schedule = Some ''0 4 * * *'', api_key = ''k4'',
       sync_enabled = False\<rparr> = ''k4''" by simp
  have 1: "triggerManualSync ?svc ''full'' (Some ''Z'') ?s =
     (Inl (Error ''Channel Z not found''),
      ?s\<lparr>console_error := [''Manual sync failed: Channel Z not found'']\<rparr>)"
    using manual_sync_one_channel [OF z, of ?s ?svc "''full''", THEN conjunct1, THEN mp, OF e]
    by (simp add: new_Scheduler_def)
  have 2: "triggerManualSync ?svc ''full'' (Some ''D'') ?s =
     (Inr (One_channel Completed),
      ?s\<lparr>wld := example_world\<lparr>sync_log :=
           [\<lparr>log_id = 1, channel_id = ''D'', sync_type = ''full'', status = Completed,
             started_at = 7, completed_at = Some 7, errors = None\<rparr>]\<rparr>\<rparr>)"
    by (rule manual_sync_one_channel [OF d, of ?s ?svc "''full''", THEN conjunct2, rule_format,
          OF example_D, THEN conjunct1, THEN mp])
       (simp add: w k example_full_D)
  have 3: "triggerManualSync ?svc ''incremental'' (Some ''D'') ?s =
     (Inr (One_channel Completed),
      ?s\<lparr>wld := example_world\<lparr>sync_log :=
           [\<lparr>log_id = 1, channel_id = ''D'', sync_type = ''incremental'', status = Completed,
             started_at = 7, completed_at = Some 7, errors = None\<rparr>]\<rparr>\<rparr>)"
    by (rule manual_sync_one_channel [OF d, of ?s ?svc "''incremental''", THEN conjunct2,
          rule_format, OF example_D, THEN conjunct2, THEN conjunct2, THEN conjunct1, THEN mp])
       (simp add: w k example_incremental_D)
  show ?thesis by (intro conjI) (fact z e 1 example_D 2 3)+
qed

section \<open>A scheduled run that fails\<close>

text \<open>
  C6. When the callback of a trigger runs and the service raises, the error is caught
  and written to the console; the job map and every task, this one and those of the
  other channels, are as before the firing, so the trigger stays registered and running.
  The callback itself returns: \<open>fire\<close> has no error result.
\<close>

theorem fire_failure_contained:
  "jobs (fire svc h s) = jobs s \<and> tasks (fire svc h s) = tasks s \<and>
   cron_calls (fire svc h s) = cron_calls s \<and>
   (\<forall>msg w'. h < length (tasks s) \<and> task_running (tasks s ! h) \<and>
       incrementalSync svc (task_channel (tasks s ! h)) (task_api_key (tasks s ! h)) (wld s)
         = (Inl (Error msg), w') \<longrightarrow>
       console_error (fire svc h s) =
         console_error s @
           [''Scheduled sync failed for '' @ task_channel (tasks s ! h) @ '': '' @ msg])"
  by (simp add: fire_def scheduled_sync_def split: prod.splits sum.splits js_error.splits)

lemma example_started_eq:
  "example_started =
     \<lparr>wld = example_world,
      jobs = [(''A'', 0), (''B'', 1), (''C'', 2)],
      tasks =
        [\<lparr>task_expr = ''0 2 * * *'', task_channel = ''A'', task_api_key = ''k1'',
           task_running = True\<rparr>,
         \<lparr>task_expr = ''0 3 * * *'', task_channel = ''B'', task_api_key = ''k2'',
           task_running = True\<rparr>,
         \<lparr>task_expr = ''0 2 * * *'', task_channel = ''C'', task_api_key = ''k3'',
           task_running = True\<rparr>],
      cron_calls =
        [Scheduled 0 ''0 2 * * *'', Scheduled 1 ''0 3 * * *'', Scheduled 2 ''0 2 * * *''],
      console_error = []\<rparr>"
  by (simp add: example_started_def initialize_def enabled_channels_def example_world_def
        new_Scheduler_def registerChannel_def channel_by_id_def cron_schedule_def
        example_validate_def cronTime_of_def default_cron_def job_stop_def Let_def)

theorem fire_failure_contained_witness:
  "jobs (fire (spec_service example_pipeline) 1 example_started) = jobs example_started \<and>
   tasks (fire (spec_service example_pipeline) 1 example_started) = tasks example_started \<and>
   cron_calls (fire (spec_service example_pipeline) 1 example_started)
     = cron_calls example_started \<and>
   console_error (fire (spec_service example_pipeline) 1 example_started)
     = [''Scheduled sync failed for B: quota exceeded'']"
proof -
  have run: "incrementalSync (spec_service example_pipeline) ''B'' ''k2'' example_world =
        (Inl (Error ''quota exceeded''),
         example_world\<lparr>sync_log :=
           [\<lparr>log_id = 1, channel_id = ''B'', sync_type = ''incremental'', status = Failed,
             started_at = 7, completed_at = Some 7, errors = Some ''quota exceeded''\<rparr>]\<rparr>)"
    by (simp add: spec_run_defs example_pipeline_def example_world_def)
  from fire_failure_contained [of "spec_service example_pipeline" 1 example_started] run
  show ?thesis
    by (simp add: example_started_eq)
qed

section \<open>A cancel request\<close>

lemma spec_cancelSync_frame:
  "sync_log (spec_cancelSync c w) = sync_log w" "clock (spec_cancelSync c w) = clock w"
  by (simp_all add: spec_cancelSync_def request_def requestAll_def split: option.splits)

lemma spec_cancelSync_requested: "cancel_requested c (spec_cancelSync c w)"
  by (simp add: spec_cancelSync_def cancel_requested_def request_def requestAll_def update_conv'
           split: option.splits)

lemma post_cancel_log:
  assumes "cancelSync svc = spec_cancelSync"
  shows "sync_log (snd (post_cancel (Some svc) channelId w)) =
     map (\<lambda>r. if status r = Running \<and> (falsy channelId \<or> channel_id r = the channelId)
               then mark_cancelled (clock w) r else r) (sync_log w)"
  using assms
  by (auto simp: post_cancel_def Let_def cancel_running_all_def cancel_running_of_def
        spec_cancelSync_frame)

lemma post_cancel_flag:
  assumes "cancelSync svc = spec_cancelSync"
  shows "cancel_requested channelId (snd (post_cancel (Some svc) channelId w))"
  using assms spec_cancelSync_requested [of channelId w]
  by (simp add: post_cancel_def Let_def cancel_running_all_def cancel_running_of_def
        cancel_requested_def split: option.splits)

text \<open>
  C3. A cancel request that reaches the sync service (\<^verbatim>\<open>POST /api/sync/cancel\<close> with
  the service in the app context): the service's \<^verbatim>\<open>cancelSync\<close> sets the flag of
  the request in the registry; every record of the run log that is running, of the
  channel of the request or of any channel when the request names none, becomes
  cancelled with "Cancelled by user" and \<^verbatim>\<open>completed_at\<close> now; and a record that is
  completed or failed afterwards is a record the request has not changed.
\<close>

theorem cancel_request_effect:
  assumes "cancelSync svc = spec_cancelSync"
  shows "cancel_requested channelId (snd (post_cancel (Some svc) channelId w)) \<and>
     length (sync_log (snd (post_cancel (Some svc) channelId w))) = length (sync_log w) \<and>
     (\<forall>i < length (sync_log w).
        (status (sync_log w ! i) = Running \<and>
         (channelId = None \<or> channelId = Some (channel_id (sync_log w ! i))) \<longrightarrow>
           sync_log (snd (post_cancel (Some svc) channelId w)) ! i =
             (sync_log w ! i)\<lparr>status := Cancelled, completed_at := Some (clock w),
                               errors := Some ''Cancelled by user''\<rparr>) \<and>
        (status (sync_log (snd (post_cancel (Some svc) channelId w)) ! i) = Completed \<or>
         status (sync_log (snd (post_cancel (Some svc) channelId w)) ! i) = Failed \<longrightarrow>
           sync_log (snd (post_cancel (Some svc) channelId w)) ! i = sync_log w ! i))"
proof (intro conjI allI impI)
  show "cancel_requested channelId (snd (post_cancel (Some svc) channelId w))"
    by (rule post_cancel_flag [OF assms])
  show "length (sync_log (snd (post_cancel (Some svc) channelId w))) = length (sync_log w)"
    by (simp add: post_cancel_log [OF assms])
next
  fix i
  assume i: "i < length (sync_log w)"
    and r: "status (sync_log w ! i) = Running \<and>
         (channelId = None \<or> channelId = Some (channel_id (sync_log w ! i)))"
  then show "sync_log (snd (post_cancel (Some svc) channelId w)) ! i =
             (sync_log w ! i)\<lparr>status := Cancelled, completed_at := Some (clock w),
                               errors := Some ''Cancelled by user''\<rparr>"
    by (auto simp: post_cancel_log [OF assms] mark_cancelled_def falsy_def)
next
  fix i
  assume i: "i < length (sync_log w)"
    and r: "status (sync_log (snd (post_cancel (Some svc) channelId w)) ! i) = Completed \<or>
         status (sync_log (snd (post_cancel (Some svc) channelId w)) ! i) = Failed"
  then show "sync_log (snd (post_cancel (Some svc) channelId w)) ! i = sync_log w ! i"
    by (auto simp: post_cancel_log [OF assms] mark_cancelled_def split: if_splits)
qed

theorem cancel_request_effect_witness:
  "cancelSync (spec_service example_pipeline) = spec_cancelSync \<and>
   0 < length (sync_log two_running) \<and>
   status (sync_log two_running ! 0) = Running \<and>
   channel_id (sync_log two_running ! 0) = ''A'' \<and>
   cancel_requested (Some ''A'')
     (snd (post_cancel (Some (spec_service example_pipeline)) (Some ''A'') two_running)) \<and>
   sync_log (snd (post_cancel (Some (spec_service example_pipeline)) (Some ''A'')
       two_running)) ! 0 =
     \<lparr>log_id = 1, channel_id = ''A'', sync_type = ''full'', status = Cancelled,
      started_at = 3, completed_at = Some 7, errors = Some ''Cancelled by user''\<rparr>"
proof -
  have svc: "cancelSync (spec_service example_pipeline) = spec_cancelSync"
    by (simp add: spec_service_def)
  have row: "0 < length (sync_log two_running)" "status (sync_log two_running ! 0) = Running"
    "channel_id (sync_log two_running ! 0) = ''A''"
    by (simp_all add: two_running_def)
  have r0: "sync_log two_running ! 0 =
     \<lparr>log_id = 1, channel_id = ''A'', sync_type = ''full'', status = Running,
      started_at = 3, completed_at = None, errors = None\<rparr>" "clock two_running = 7"
    by (simp_all add: two_running_def example_world_def)
  note eff = cancel_request_effect [OF svc, of "Some ''A''" two_running]
  have flag: "cancel_requested (Some ''A'')
     (snd (post_cancel (Some (spec_service example_pipeline)) (Some ''A'') two_running))"
    by (rule eff [THEN conjunct1])
  have "sync_log (snd (post_cancel (Some (spec_service example_pipeline)) (Some ''A'')
       two_running)) ! 0 =
       (sync_log two_running ! 0)\<lparr>status := Cancelled, completed_at := Some (clock two_running),
                               errors := Some ''Cancelled by user''\<rparr>"
    by (rule eff [THEN conjunct2, THEN conjunct2, rule_format, of 0, THEN conjunct1, THEN mp])
       (insert row, simp_all)
  then have final: "sync_log (snd (post_cancel (Some (spec_service example_pipeline))
       (Some ''A'') two_running)) ! 0 =
     \<lparr>log_id = 1, channel_id = ''A'', sync_type = ''full'', status = Cancelled,
      started_at = 3, completed_at = Some 7, errors = Some ''Cancelled by user''\<rparr>"
    by (simp add: r0)
  show ?thesis
    by (intro conjI) (fact svc row flag final)+
qed

section \<open>The progress query\<close>

lemma get_progress_idle:
  "get_progress w = Not_running \<longleftrightarrow> (\<forall>r\<in>set (sync_log w). status r \<noteq> Running)"
proof -
  have "get_progress w = Not_running \<longleftrightarrow> running_latest_first w = []"
    by (cases "running_latest_first w") (simp_all add: get_progress_def)
  also have "\<dots> \<longleftrightarrow> filter (\<lambda>r. status r = Running) (sync_log w) = []"
    unfolding running_latest_first_def
    by (metis rev_is_Nil_conv length_sort length_0_conv)
  finally show ?thesis by (simp add: filter_empty_conv)
qed

lemma sorted_le_last: "sorted xs \<Longrightarrow> x \<in> set xs \<Longrightarrow> (x::nat) \<le> last xs"
  by (induction xs) auto

lemma get_progress_latest:
  assumes "get_progress w = Running_sync r"
  shows "r \<in> set (sync_log w) \<and> status r = Running \<and>
         (\<forall>r'\<in>set (sync_log w). status r' = Running \<longrightarrow> started_at r' \<le> started_at r)"
proof -
  let ?run = "filter (\<lambda>r. status r = Running) (sync_log w)"
  let ?srt = "sort_key started_at ?run"
  from assms obtain rest where hd: "rev ?srt = r # rest"
    by (cases "rev ?srt") (simp_all add: get_progress_def running_latest_first_def)
  then have ne: "?srt \<noteq> []" and last: "last ?srt = r"
    by (auto simp: rev_eq_Cons_iff)
  then have "r \<in> set ?srt" using last_in_set by blast
  then have mem: "r \<in> set (sync_log w)" "status r = Running" by simp_all
  have srt: "sorted (map started_at ?srt)" by (rule sorted_sort_key)
  have "started_at r' \<le> started_at r" if "r' \<in> set (sync_log w)" "status r' = Running" for r'
  proof -
    from that have "r' \<in> set ?srt" by simp
    then have "started_at r' \<in> set (map started_at ?srt)" by simp
    with srt have "started_at r' \<le> last (map started_at ?srt)"
      by (rule sorted_le_last)
    with ne last show ?thesis by (simp add: last_map)
  qed
  with mem show ?thesis by blast
qed

text \<open>
  C9, as amended. \<^verbatim>\<open>GET /api/sync/progress\<close> takes no channel. It answers "not
  running" exactly when no record of the run log is running; otherwise it answers with
  one record, which is running and has the latest \<^verbatim>\<open>started_at\<close> of the running
  records of all channels.
\<close>

theorem progress_reports_latest_running:
  "(get_progress w = Not_running \<longleftrightarrow> (\<forall>r\<in>set (sync_log w). status r \<noteq> Running)) \<and>
   (\<forall>r. get_progress w = Running_sync r \<longrightarrow>
      r \<in> set (sync_log w) \<and> status r = Running \<and>
      (\<forall>r'\<in>set (sync_log w). status r' = Running \<longrightarrow> started_at r' \<le> started_at r))"
  using get_progress_idle [of w] get_progress_latest [of w] by blast

lemma get_progress_two_running:
  "get_progress two_running =
     Running_sync \<lparr>log_id = 3, channel_id = ''C'', sync_type = ''incremental'', status = Running,
          started_at = 6, completed_at = None, errors = None\<rparr>"
  by (simp add: get_progress_def running_latest_first_def two_running_def)

theorem progress_reports_latest_running_witness:
  "get_progress two_running =
     Running_sync \<lparr>log_id = 3, channel_id = ''C'', sync_type = ''incremental'', status = Running,
          started_at = 6, completed_at = None, errors = None\<rparr> \<and>
   \<lparr>log_id = 3, channel_id = ''C'', sync_type = ''incremental'', status = Running,
          started_at = 6, completed_at = None, errors = None\<rparr> \<in> set (sync_log two_running)"
  using progress_reports_latest_running [of two_running] get_progress_two_running
  by simp

text \<open>
  C9 as stated fails: with runs of channels A and C in progress, the answer holds the
  record of C alone; the running record of A is not in it.
\<close>

theorem progress_omits_running_run:
  "\<lparr>log_id = 1, channel_id = ''A'', sync_type = ''full'', status = Running,
     started_at = 3, completed_at = None, errors = None\<rparr> \<in> set (sync_log two_running) \<and>
   get_progress two_running =
     Running_sync \<lparr>log_id = 3, channel_id = ''C'', sync_type = ''incremental'', status = Running,
          started_at = 6, completed_at = None, errors = None\<rparr> \<and>
   get_progress two_running \<noteq>
     Running_sync \<lparr>log_id = 1, channel_id = ''A'', sync_type = ''full'', status = Running,
     started_at = 3, completed_at = None, errors = None\<rparr>"
  by (simp add: get_progress_two_running) (simp add: two_running_def)

section \<open>A change of credential\<close>

lemma put_channel_apiKey_only:
  "snd (put_channel validate c None None (Some k) s) =
     (if channel_by_id c (wld s) = [] then s
      else s\<lparr>wld := (wld s)\<lparr>channel :=
                 map (\<lambda>r. if ch_id r = c then r\<lparr>api_key := k\<rparr> else r) (channel (wld s))\<rparr>\<rparr>)"
  by (simp add: put_channel_def set_columns_def Let_def)

lemma put_apiKey_frame:
  "jobs (snd (put_channel validate c None None (Some k) s)) = jobs s"
  "tasks (snd (put_channel validate c None None (Some k) s)) = tasks s"
  "cron_calls (snd (put_channel validate c None None (Some k) s)) = cron_calls s"
  by (simp_all add: put_channel_apiKey_only)

lemma filter_id_map_key:
  "filter (\<lambda>r. ch_id r = c) (map (\<lambda>r. if ch_id r = c then r\<lparr>api_key := k\<rparr> else r) rows) =
   map (\<lambda>r. r\<lparr>api_key := k\<rparr>) (filter (\<lambda>r. ch_id r = c) rows)"
  by (induction rows) simp_all

lemma put_apiKey_db:
  "\<forall>r \<in> set (channel_by_id c (wld (snd (put_channel validate c None None (Some k) s)))).
     api_key r = k"
proof (cases "channel_by_id c (wld s) = []")
  case True
  then show ?thesis by (simp add: put_channel_apiKey_only)
next
  case False
  then have "channel_by_id c (wld (snd (put_channel validate c None None (Some k) s))) =
      map (\<lambda>r. r\<lparr>api_key := k\<rparr>) (channel_by_id c (wld s))"
    by (simp add: put_channel_apiKey_only) (simp add: channel_by_id_def filter_id_map_key)
  then show ?thesis by simp
qed

lemma fire_returns:
  assumes "h < length (tasks s)" and "task_running (tasks s ! h)"
    and "incrementalSync svc (task_channel (tasks s ! h)) (task_api_key (tasks s ! h)) (wld s)
           = (Inr r, w')"
  shows "fire svc h s = s\<lparr>wld := w'\<rparr>"
  using assms by (simp add: fire_def scheduled_sync_def)

lemma fire_raises:
  assumes "h < length (tasks s)" and "task_running (tasks s ! h)"
    and "incrementalSync svc (task_channel (tasks s ! h)) (task_api_key (tasks s ! h)) (wld s)
           = (Inl (Error msg), w')"
  shows "fire svc h s =
           s\<lparr>wld := w',
             console_error := console_error s @
               [''Scheduled sync failed for '' @ task_channel (tasks s ! h) @ '': '' @ msg]\<rparr>"
  using assms by (simp add: fire_def scheduled_sync_def)

text \<open>
  C10. For a trigger that is armed, \<^verbatim>\<open>PUT /api/channels/:id\<close> with \<^verbatim>\<open>apiKey\<close> alone
  writes the new credential to the channel table and leaves the job map, the tasks and
  the calls into node-cron as they were: nothing is stopped or scheduled. A firing of the
  trigger afterwards calls \<^verbatim>\<open>incrementalSync\<close> of the service with the channel and the
  credential the task captured, on the world that holds the new credential, and ends
  as that call ends. The captured credential is the \<^verbatim>\<open>api_key\<close> that
  \<^verbatim>\<open>registerChannel\<close> read when it created the task.
\<close>

theorem credential_change_keeps_trigger:
  assumes "h < length (tasks s)" and "task_running (tasks s ! h)"
  shows "jobs (snd (put_channel validate c None None (Some k) s)) = jobs s \<and>
         tasks (snd (put_channel validate c None None (Some k) s)) = tasks s \<and>
         cron_calls (snd (put_channel validate c None None (Some k) s)) = cron_calls s \<and>
         (\<forall>r \<in> set (channel_by_id c
                        (wld (snd (put_channel validate c None None (Some k) s)))).
             api_key r = k) \<and>
         (\<forall>r w'.
            incrementalSync svc (task_channel (tasks s ! h)) (task_api_key (tasks s ! h))
              (wld (snd (put_channel validate c None None (Some k) s))) = (Inr r, w') \<longrightarrow>
            fire svc h (snd (put_channel validate c None None (Some k) s)) =
              (snd (put_channel validate c None None (Some k) s))\<lparr>wld := w'\<rparr>) \<and>
         (\<forall>msg w'.
            incrementalSync svc (task_channel (tasks s ! h)) (task_api_key (tasks s ! h))
              (wld (snd (put_channel validate c None None (Some k) s)))
                = (Inl (Error msg), w') \<longrightarrow>
            fire svc h (snd (put_channel validate c None None (Some k) s)) =
              (snd (put_channel validate c None None (Some k) s))
                \<lparr>wld := w',
                 console_error :=
                   console_error (snd (put_channel validate c None None (Some k) s)) @
                     [''Scheduled sync failed for '' @ task_channel (tasks s ! h) @ '': '' @
                      msg]\<rparr>) \<and>
         (\<forall>s0 ch rest. s = registerChannel validate c s0 \<and> h = length (tasks s0) \<and>
             channel_by_id c (wld s0) = ch # rest \<and> sync_enabled ch \<and>
             validate (cronTime_of ch) = None \<longrightarrow>
             task_channel (tasks s ! h) = c \<and> task_api_key (tasks s ! h) = api_key ch)"
proof (intro conjI allI impI)
  let ?s' = "snd (put_channel validate c None None (Some k) s)"
  have armed: "h < length (tasks ?s')" "task_running (tasks ?s' ! h)"
    using assms by (simp_all add: put_apiKey_frame)
  show "\<forall>r \<in> set (channel_by_id c (wld ?s')). api_key r = k"
    by (rule put_apiKey_db)
  {
    fix r w'
    assume "incrementalSync svc (task_channel (tasks s ! h)) (task_api_key (tasks s ! h))
              (wld ?s') = (Inr r, w')"
    then have "incrementalSync svc (task_channel (tasks ?s' ! h))
              (task_api_key (tasks ?s' ! h)) (wld ?s') = (Inr r, w')"
      by (simp add: put_apiKey_frame)
    from fire_returns [OF armed this] show "fire svc h ?s' = ?s'\<lparr>wld := w'\<rparr>" .
  next
    fix msg w'
    assume "incrementalSync svc (task_channel (tasks s ! h)) (task_api_key (tasks s ! h))
              (wld ?s') = (Inl (Error msg), w')"
    then have "incrementalSync svc (task_channel (tasks ?s' ! h))
              (task_api_key (tasks ?s' ! h)) (wld ?s') = (Inl (Error msg), w')"
      by (simp add: put_apiKey_frame)
    from fire_raises [OF armed this]
    show "fire svc h ?s' =
            ?s'\<lparr>wld := w',
                console_error := console_error ?s' @
                  [''Scheduled sync failed for '' @ task_channel (tasks s ! h) @ '': '' @ msg]\<rparr>"
      by (simp add: put_apiKey_frame)
  next
    fix s0 ch rest
    assume a: "s = registerChannel validate c s0 \<and> h = length (tasks s0) \<and>
             channel_by_id c (wld s0) = ch # rest \<and> sync_enabled ch \<and>
             validate (cronTime_of ch) = None"
    then have "tasks s ! h = \<lparr>task_expr = cronTime_of ch, task_channel = c,
        task_api_key = api_key ch, task_running = True\<rparr>"
      using register_captures(2) [of c s0 ch rest validate] by blast
    then show "task_channel (tasks s ! h) = c" "task_api_key (tasks s ! h) = api_key ch"
      by simp_all
  }
qed (rule put_apiKey_frame)+

theorem credential_change_keeps_trigger_witness:
  "1 < length (tasks example_started) \<and> task_running (tasks example_started ! 1) \<and>
   task_api_key (tasks example_started ! 1) = ''k2'' \<and>
   tasks (snd (put_channel example_validate ''B'' None None (Some ''k9'') example_started))
     = tasks example_started \<and>
   api_key (hd (channel_by_id ''B''
      (wld (snd (put_channel example_validate ''B'' None None (Some ''k9'')
                   example_started))))) = ''k9'' \<and>
   console_error (fire probe_service 1
       (snd (put_channel example_validate ''B'' None None (Some ''k9'') example_started))) =
     [''Scheduled sync failed for B: incremental with k2'']"
proof -
  let ?s' = "snd (put_channel example_validate ''B'' None None (Some ''k9'') example_started)"
  have h: "1 < length (tasks example_started)" "task_running (tasks example_started ! 1)"
    by (simp_all add: example_started_eq)
  have t: "task_channel (tasks example_started ! 1) = ''B''"
    "task_api_key (tasks example_started ! 1) = ''k2''"
    by (simp_all add: example_started_eq)
  have db: "api_key (hd (channel_by_id ''B'' (wld ?s'))) = ''k9''"
    by (simp add: put_channel_apiKey_only example_started_eq example_world_def channel_by_id_def)
  have c0: "console_error ?s' = []"
    by (simp add: put_channel_apiKey_only example_started_eq)
  note eff = credential_change_keeps_trigger
      [OF h, of example_validate "''B''" "''k9''" probe_service]
  have call: "incrementalSync probe_service (task_channel (tasks example_started ! 1))
      (task_api_key (tasks example_started ! 1)) (wld ?s') =
        (Inl (Error ''incremental with k2''), wld ?s')"
    unfolding t by (simp add: probe_service_def)
  have "fire probe_service 1 ?s' =
     ?s'\<lparr>wld := wld ?s',
         console_error := console_error ?s' @
           [''Scheduled sync failed for '' @ task_channel (tasks example_started ! 1) @ '': '' @
            ''incremental with k2'']\<rparr>"
    by (rule eff [THEN conjunct2, THEN conjunct2, THEN conjunct2, THEN conjunct2,
          THEN conjunct2, THEN conjunct1, rule_format, OF call])
  then have f: "console_error (fire probe_service 1 ?s') =
     [''Scheduled sync failed for B: incremental with k2'']"
    unfolding t by (simp add: c0)
  show ?thesis
    by (intro conjI)
       (fact h t(2) db f eff [THEN conjunct2, THEN conjunct1])+
qed

section \<open>Well-formed states\<close>

lemma wf_new: "wf (new_Scheduler w)"
  by (simp add: wf_def new_Scheduler_def)

lemma wf_inj:
  "wf s \<Longrightarrow> map_of (jobs s) c = Some h \<Longrightarrow> map_of (jobs s) c' = Some h \<Longrightarrow> c = c'"
  unfolding wf_def by metis

lemma wfI:
  assumes "\<And>c h. map_of (jobs s) c = Some h \<Longrightarrow>
             h < length (tasks s) \<and> task_channel (tasks s ! h) = c"
    and "\<And>h. h < length (tasks s) \<Longrightarrow> task_running (tasks s ! h) \<Longrightarrow>
             map_of (jobs s) (task_channel (tasks s ! h)) = Some h"
  shows "wf s"
  using assms unfolding wf_def by blast

lemma wf_job:
  "wf s \<Longrightarrow> map_of (jobs s) c = Some h \<Longrightarrow>
   h < length (tasks s) \<and> task_channel (tasks s ! h) = c"
  unfolding wf_def by blast

lemma wf_task:
  "wf s \<Longrightarrow> h < length (tasks s) \<Longrightarrow> task_running (tasks s ! h) \<Longrightarrow>
   map_of (jobs s) (task_channel (tasks s ! h)) = Some h"
  unfolding wf_def by blast

lemma wf_cong:
  "map_of (jobs s) = map_of (jobs s') \<Longrightarrow> tasks s = tasks s' \<Longrightarrow> wf s \<Longrightarrow> wf s'"
  unfolding wf_def by simp

lemma stop_keeps_channel:
  "task_channel (ts[a := (ts ! a)\<lparr>task_running := False\<rparr>] ! h) = task_channel (ts ! h)"
proof (cases "a < length ts")
  case True
  then show ?thesis by (cases "h = a") simp_all
next
  case False
  then have "ts[a := (ts ! a)\<lparr>task_running := False\<rparr>] = ts"
    by (simp add: list_update_beyond)
  then show ?thesis by simp
qed

lemma stop_running:
  "h < length ts \<Longrightarrow> task_running (ts[a := (ts ! a)\<lparr>task_running := False\<rparr>] ! h) \<longleftrightarrow>
     task_running (ts ! h) \<and> h \<noteq> a"
  by (cases "h = a") simp_all

text \<open>Stopping a task keeps the state well formed.\<close>

lemma wf_stop:
  assumes w: "wf s"
  shows "wf (job_stop h0 s)"
proof (rule wfI)
  fix c h
  assume "map_of (jobs (job_stop h0 s)) c = Some h"
  then have "map_of (jobs s) c = Some h" by simp
  from wf_job [OF w this]
  show "h < length (tasks (job_stop h0 s)) \<and> task_channel (tasks (job_stop h0 s) ! h) = c"
    by (simp add: stop_keeps_channel)
next
  fix h
  assume "h < length (tasks (job_stop h0 s))" and "task_running (tasks (job_stop h0 s) ! h)"
  then have hl: "h < length (tasks s)" and run: "task_running (tasks s ! h)"
    by (simp_all add: stop_running)
  from wf_task [OF w hl run]
  show "map_of (jobs (job_stop h0 s)) (task_channel (tasks (job_stop h0 s) ! h)) = Some h"
    by (simp add: stop_keeps_channel)
qed

text \<open>Stopping the job of a channel and taking it out of the map keeps the state well formed.\<close>

lemma wf_stop_delete:
  assumes w: "wf s" and j: "map_of (jobs s) c = Some h0"
  shows "wf ((job_stop h0 s)\<lparr>jobs := AList.delete c (jobs s)\<rparr>)" (is "wf ?s'")
proof (rule wfI)
  fix c' h
  assume "map_of (jobs ?s') c' = Some h"
  then have ne: "c' \<noteq> c" and old: "map_of (jobs s) c' = Some h"
    by (auto simp: delete_conv' split: if_splits)
  from wf_job [OF w old]
  show "h < length (tasks ?s') \<and> task_channel (tasks ?s' ! h) = c'"
    by (simp add: stop_keeps_channel)
next
  fix h
  assume hl: "h < length (tasks ?s')" and run: "task_running (tasks ?s' ! h)"
  have "h \<noteq> h0"
  proof
    assume "h = h0"
    with hl run show False by simp
  qed
  with hl run have hl': "h < length (tasks s)" and run': "task_running (tasks s ! h)"
    and same: "tasks ?s' ! h = tasks s ! h"
    by simp_all
  have m: "map_of (jobs s) (task_channel (tasks s ! h)) = Some h"
    by (rule wf_task [OF w hl' run'])
  have "task_channel (tasks s ! h) \<noteq> c"
  proof
    assume "task_channel (tasks s ! h) = c"
    with m j have "h = h0" by simp
    with \<open>h \<noteq> h0\<close> show False by simp
  qed
  with m same show "map_of (jobs ?s') (task_channel (tasks ?s' ! h)) = Some h"
    by (simp add: delete_conv')
qed

lemma wf_unregister: "wf s \<Longrightarrow> wf (unregisterChannel c s)"
  by (cases "map_of (jobs s) c") (simp_all add: unregisterChannel_def Let_def wf_stop_delete)

text \<open>Scheduling a new task for a channel that has no job keeps the state well formed.\<close>

lemma wf_schedule:
  assumes w: "wf s" and j: "map_of (jobs s) c = None"
  shows "wf (s\<lparr>tasks := tasks s @ [\<lparr>task_expr = e, task_channel = c, task_api_key = k,
                  task_running = True\<rparr>],
               cron_calls := cc,
               jobs := AList.update c (length (tasks s)) (jobs s)\<rparr>)" (is "wf ?s'")
proof (rule wfI)
  fix c' h
  assume a: "map_of (jobs ?s') c' = Some h"
  show "h < length (tasks ?s') \<and> task_channel (tasks ?s' ! h) = c'"
  proof (cases "c' = c")
    case True
    with a have "h = length (tasks s)" by (simp add: update_conv')
    with True show ?thesis by simp
  next
    case False
    with a have "map_of (jobs s) c' = Some h" by (simp add: update_conv')
    from wf_job [OF w this] show ?thesis by (simp add: nth_append)
  qed
next
  fix h
  assume hl: "h < length (tasks ?s')" and run: "task_running (tasks ?s' ! h)"
  show "map_of (jobs ?s') (task_channel (tasks ?s' ! h)) = Some h"
  proof (cases "h < length (tasks s)")
    case True
    with run have run': "task_running (tasks s ! h)" by (simp add: nth_append)
    have m: "map_of (jobs s) (task_channel (tasks s ! h)) = Some h"
      by (rule wf_task [OF w True run'])
    with j have "task_channel (tasks s ! h) \<noteq> c" by auto
    with m True show ?thesis by (simp add: update_conv' nth_append)
  next
    case False
    with hl have "h = length (tasks s)" by simp
    then show ?thesis by (simp add: update_conv')
  qed
qed

lemma wf_register:
  assumes w: "wf s"
  shows "wf (registerChannel validate c s)"
proof (cases "channel_by_id c (wld s)")
  case Nil
  with w show ?thesis by (simp add: registerChannel_def wf_def)
next
  case (Cons ch rest)
  show ?thesis
  proof (cases "sync_enabled ch")
    case False
    with Cons w show ?thesis by (simp add: registerChannel_def)
  next
    case True
    show ?thesis
    proof (cases "validate (cronTime_of ch)")
      case (Some e)
      obtain msg where e: "e = Error msg" by (cases e)
      note reg = registerChannel_refused [OF Cons True, where validate = validate and msg = msg]
      have w1: "wf (case map_of (jobs s) c of None \<Rightarrow> s | Some h \<Rightarrow> job_stop h s)"
        using w by (simp add: wf_stop split: option.splits)
      show ?thesis
        by (rule wf_cong [OF _ _ w1]) (simp_all add: reg Some e Let_def)
    next
      case None
      note reg = registerChannel_accepted [OF Cons True, where validate = validate, OF None]
      show ?thesis
      proof (cases "map_of (jobs s) c")
        case None
        from wf_schedule [OF w None] None show ?thesis
          by (simp add: reg)
      next
        case (Some h0)
        let ?s1 = "(job_stop h0 s)\<lparr>jobs := AList.delete c (jobs s)\<rparr>"
        have w1: "wf ?s1" by (rule wf_stop_delete [OF w Some])
        have n1: "map_of (jobs ?s1) c = None" by (simp add: delete_conv')
        show ?thesis
        proof (rule wf_cong [OF _ _ wf_schedule [OF w1 n1]])
          show "map_of (jobs (?s1\<lparr>tasks := tasks ?s1 @ [\<lparr>task_expr = cronTime_of ch,
                   task_channel = c, task_api_key = api_key ch, task_running = True\<rparr>],
                 cron_calls := cron_calls (registerChannel validate c s),
                 jobs := AList.update c (length (tasks ?s1)) (jobs ?s1)\<rparr>))
               = map_of (jobs (registerChannel validate c s))"
            using Some by (simp add: reg update_conv' delete_conv')
          show "tasks (?s1\<lparr>tasks := tasks ?s1 @ [\<lparr>task_expr = cronTime_of ch,
                   task_channel = c, task_api_key = api_key ch, task_running = True\<rparr>],
                 cron_calls := cron_calls (registerChannel validate c s),
                 jobs := AList.update c (length (tasks ?s1)) (jobs ?s1)\<rparr>)
               = tasks (registerChannel validate c s)"
            using Some by (simp add: reg)
        qed
      qed
    qed
  qed
qed

lemma wf_update: "wf s \<Longrightarrow> wf (updateChannel validate c s)"
  by (simp add: updateChannel_def wf_register wf_unregister)

lemma wf_initialize: "wf s \<Longrightarrow> wf (initialize validate s)"
proof -
  have "\<And>s. wf s \<Longrightarrow> wf (fold (registerChannel validate) cs s)" for cs
    by (induction cs) (simp_all add: wf_register)
  then show "wf s \<Longrightarrow> wf (initialize validate s)" by (simp add: initialize_def)
qed

lemma filter_upt_eq: "h < n \<Longrightarrow> filter (\<lambda>i. i = h) [0..<n] = [h]"
proof (induction n)
  case 0 then show ?case by simp
next
  case (Suc n)
  show ?case
  proof (cases "h = n")
    case True
    have "filter (\<lambda>i. i = n) [0..<n] = []" by (simp add: filter_empty_conv)
    with True show ?thesis by simp
  next
    case False
    with Suc show ?thesis by simp
  qed
qed

lemma armed_for_wf:
  assumes "wf s"
  shows "armed_for c s =
     (case map_of (jobs s) c of
        None \<Rightarrow> []
      | Some h \<Rightarrow> if task_running (tasks s ! h) then [h] else [])"
proof (cases "map_of (jobs s) c")
  case None
  have "\<forall>h \<in> set [0..<length (tasks s)].
          \<not> (task_running (tasks s ! h) \<and> task_channel (tasks s ! h) = c)"
    using assms None by (auto simp: wf_def)
  then have "armed_for c s = []" unfolding armed_for_def by (simp add: filter_empty_conv)
  with None show ?thesis by simp
next
  case (Some h)
  have hl: "h < length (tasks s)" and ch: "task_channel (tasks s ! h) = c"
    using wf_job [OF assms Some] by simp_all
  show ?thesis
  proof (cases "task_running (tasks s ! h)")
    case True
    have "(task_running (tasks s ! i) \<and> task_channel (tasks s ! i) = c) = (i = h)"
      if "i \<in> set [0..<length (tasks s)]" for i
    proof
      assume a: "task_running (tasks s ! i) \<and> task_channel (tasks s ! i) = c"
      from that have il: "i < length (tasks s)" by simp
      from wf_task [OF assms il] a have "map_of (jobs s) c = Some i" by simp
      with Some show "i = h" by simp
    next
      assume "i = h"
      with True ch show "task_running (tasks s ! i) \<and> task_channel (tasks s ! i) = c" by simp
    qed
    then have "armed_for c s = filter (\<lambda>i. i = h) [0..<length (tasks s)]"
      unfolding armed_for_def by (intro filter_cong) auto
    with hl Some True show ?thesis by (simp add: filter_upt_eq)
  next
    case False
    have "\<forall>i \<in> set [0..<length (tasks s)].
            \<not> (task_running (tasks s ! i) \<and> task_channel (tasks s ! i) = c)"
      using wf_task [OF assms] Some False by auto
    then have "armed_for c s = []" unfolding armed_for_def by (simp add: filter_empty_conv)
    with Some False show ?thesis by simp
  qed
qed

lemma length_tasks_unregister: "length (tasks (unregisterChannel c s)) = length (tasks s)"
  by (simp add: unregisterChannel_def Let_def split: option.splits)

lemma jobs_unregister: "map_of (jobs (unregisterChannel c s)) c = None"
  by (simp add: unregisterChannel_def Let_def delete_conv' split: option.splits)


lemma wld_unregister: "wld (unregisterChannel c s) = wld s"
  by (simp add: unregisterChannel_def Let_def split: option.splits)

lemma fold_stop_tasks:
  "length (tasks (fold (\<lambda>(c, h). job_stop h) js s)) = length (tasks s) \<and>
   (\<forall>h < length (tasks s).
      task_running (tasks (fold (\<lambda>(c, h). job_stop h) js s) ! h) \<longrightarrow>
        task_running (tasks s ! h) \<and> h \<notin> snd ` set js)"
proof (induction js arbitrary: s)
  case Nil
  show ?case by simp
next
  case (Cons j js)
  obtain c h0 where j: "j = (c, h0)" by (cases j)
  let ?s1 = "job_stop h0 s"
  let ?r = "fold (\<lambda>(c, h). job_stop h) js ?s1"
  have step: "fold (\<lambda>(c, h). job_stop h) (j # js) s = ?r" by (simp add: j)
  note IH = Cons.IH [of ?s1]
  have len: "length (tasks ?r) = length (tasks s)" using IH by simp
  have "task_running (tasks s ! h) \<and> h \<notin> snd ` set (j # js)"
    if hl: "h < length (tasks s)" and run: "task_running (tasks ?r ! h)" for h
  proof -
    from hl have "h < length (tasks ?s1)" by simp
    with IH run have r1: "task_running (tasks ?s1 ! h)" and n1: "h \<notin> snd ` set js"
      by blast+
    from r1 hl have "h \<noteq> h0" by (auto simp: nth_list_update)
    with r1 hl n1 show ?thesis by (simp add: j)
  qed
  with len show ?case unfolding step by blast
qed

lemma wf_stopAll:
  assumes w: "wf s"
  shows "wf (stopAll s)"
proof (rule wfI)
  fix c h
  assume "map_of (jobs (stopAll s)) c = Some h"
  then show "h < length (tasks (stopAll s)) \<and> task_channel (tasks (stopAll s) ! h) = c"
    by (simp add: stopAll_def)
next
  fix h
  assume hl: "h < length (tasks (stopAll s))" and run: "task_running (tasks (stopAll s) ! h)"
  from hl have hl': "h < length (tasks s)" by (simp add: stopAll_def fold_stop_tasks)
  with run fold_stop_tasks [of "jobs s" s]
  have r: "task_running (tasks s ! h)" and n: "h \<notin> snd ` set (jobs s)"
    by (simp_all add: stopAll_def)
  from wf_task [OF w hl' r] have "(task_channel (tasks s ! h), h) \<in> set (jobs s)"
    by (rule map_of_SomeD)
  then have "h \<in> snd ` set (jobs s)" by force
  with n show "map_of (jobs (stopAll s)) (task_channel (tasks (stopAll s) ! h)) = Some h"
    by simp
qed

lemma reachable_wf: "reachable validate s \<Longrightarrow> wf s"
proof (induction rule: reachable.induct)
  case (outside s w l)
  then show ?case by (simp add: wf_def)
qed (simp_all add: wf_new wf_register wf_unregister wf_update wf_initialize wf_stopAll)

section \<open>Registration and update of an enabled channel\<close>

lemma wld_register: "wld (registerChannel validate c s) = wld s"
proof (cases "channel_by_id c (wld s)")
  case Nil
  then show ?thesis by (simp add: registerChannel_def)
next
  case (Cons ch rest)
  show ?thesis
  proof (cases "validate (cronTime_of ch)")
    case None
    with Cons show ?thesis
      by (simp add: registerChannel_def cron_schedule_def Let_def split: option.splits)
  next
    case (Some e)
    obtain msg where "e = Error msg" by (cases e)
    with Some Cons show ?thesis
      by (simp add: registerChannel_def cron_schedule_def Let_def split: option.splits)
  qed
qed

lemma register_stops_old:
  assumes "channel_by_id c (wld s) = ch # rest" "sync_enabled ch"
    and "validate (cronTime_of ch) = None"
    and "map_of (jobs s) c = Some h0" and "h0 < length (tasks s)"
  shows "cron_calls (registerChannel validate c s) =
           cron_calls s @ [Stopped h0, Scheduled (length (tasks s)) (cronTime_of ch)]"
    and "\<not> task_running (tasks (registerChannel validate c s) ! h0)"
  using assms(4,5)
  by (simp_all add: registerChannel_accepted [where validate = validate, OF assms(1,2,3)]
        Let_def nth_append)

lemma armed_after_register:
  assumes w: "wf s" and c: "channel_by_id c (wld s) = ch # rest" and e: "sync_enabled ch"
    and v: "validate (cronTime_of ch) = None"
  shows "armed_for c (registerChannel validate c s) = [length (tasks s)]"
proof -
  note cap = register_captures [where validate = validate, OF c e v]
  show ?thesis
    unfolding armed_for_wf [OF wf_register [OF w]] by (simp add: cap)
qed

lemma cron_calls_update:
  assumes "channel_by_id c (wld s) = ch # rest" "sync_enabled ch"
    and "validate (cronTime_of ch) = None"
  shows "cron_calls (updateChannel validate c s) =
     cron_calls s @ (case map_of (jobs s) c of None \<Rightarrow> [] | Some h0 \<Rightarrow> [Stopped h0]) @
       [Scheduled (length (tasks s)) (cronTime_of ch)]"
proof -
  let ?s1 = "unregisterChannel c s"
  have 1: "channel_by_id c (wld ?s1) = ch # rest" using assms(1) by (simp add: wld_unregister)
  have 2: "map_of (jobs ?s1) c = None" by (rule jobs_unregister)
  have 3: "cron_calls ?s1 =
     cron_calls s @ (case map_of (jobs s) c of None \<Rightarrow> [] | Some h0 \<Rightarrow> [Stopped h0])"
    by (simp add: unregisterChannel_def Let_def split: option.splits)
  show ?thesis
    unfolding updateChannel_def
      registerChannel_accepted [where validate = validate, OF 1 assms(2,3)]
    by (simp add: 2 3 Let_def length_tasks_unregister)
qed

lemma update_captures:
  assumes "channel_by_id c (wld s) = ch # rest" "sync_enabled ch"
    and "validate (cronTime_of ch) = None"
  shows "map_of (jobs (updateChannel validate c s)) c = Some (length (tasks s))"
    and "tasks (updateChannel validate c s) ! length (tasks s) =
     \<lparr>task_expr = cronTime_of ch, task_channel = c, task_api_key = api_key ch,
       task_running = True\<rparr>"
proof -
  let ?s1 = "unregisterChannel c s"
  have 1: "channel_by_id c (wld ?s1) = ch # rest" using assms(1) by (simp add: wld_unregister)
  note cap = register_captures [where validate = validate, OF 1 assms(2,3)]
  from cap(1) show "map_of (jobs (updateChannel validate c s)) c = Some (length (tasks s))"
    by (simp add: updateChannel_def length_tasks_unregister)
  from cap(2) show "tasks (updateChannel validate c s) ! length (tasks s) =
     \<lparr>task_expr = cronTime_of ch, task_channel = c, task_api_key = api_key ch,
       task_running = True\<rparr>"
    by (simp add: updateChannel_def length_tasks_unregister)
qed

lemma armed_after_update:
  assumes w: "wf s" and c: "channel_by_id c (wld s) = ch # rest" and e: "sync_enabled ch"
    and v: "validate (cronTime_of ch) = None"
  shows "armed_for c (updateChannel validate c s) = [length (tasks s)]"
proof -
  note cap = update_captures [where validate = validate, OF c e v]
  show ?thesis
    unfolding armed_for_wf [OF wf_update [OF w]] by (simp add: cap)
qed

text \<open>
  C4, as amended. For a channel that is found and enabled and whose recurrence
  expression (or \<^verbatim>\<open>'0 2 * * *'\<close> when the expression is NULL or empty) node-cron
  accepts, in any state the scheduler reaches: \<^verbatim>\<open>registerChannel\<close> creates a running
  task with that expression; when the channel already has a job, its task is stopped
  first, then the new task is scheduled, and the job map holds the new task in place of
  the old one. After \<^verbatim>\<open>updateChannel\<close> the channel has exactly one running task, the
  new one, built from the recurrence expression now in the channel table, and the old
  task, if there was one, was stopped before the new one was scheduled.
\<close>

theorem register_replaces_trigger:
  assumes "reachable validate s" and "channel_by_id c (wld s) = ch # rest"
    and "sync_enabled ch" and "validate (cronTime_of ch) = None"
  shows "tasks (registerChannel validate c s) ! length (tasks s) =
           \<lparr>task_expr = cronTime_of ch, task_channel = c, task_api_key = api_key ch,
             task_running = True\<rparr> \<and>
         (sync_schedule ch = None \<or> sync_schedule ch = Some [] \<longrightarrow>
            cronTime_of ch = ''0 2 * * *'') \<and>
         (\<forall>e. sync_schedule ch = Some e \<and> e \<noteq> [] \<longrightarrow> cronTime_of ch = e) \<and>
         (\<forall>h0. map_of (jobs s) c = Some h0 \<longrightarrow>
            cron_calls (registerChannel validate c s) =
              cron_calls s @ [Stopped h0, Scheduled (length (tasks s)) (cronTime_of ch)] \<and>
            \<not> task_running (tasks (registerChannel validate c s) ! h0)) \<and>
         map_of (jobs (registerChannel validate c s)) c = Some (length (tasks s)) \<and>
         armed_for c (registerChannel validate c s) = [length (tasks s)] \<and>
         cron_calls (updateChannel validate c s) =
           cron_calls s @ (case map_of (jobs s) c of None \<Rightarrow> [] | Some h0 \<Rightarrow> [Stopped h0]) @
             [Scheduled (length (tasks s)) (cronTime_of ch)] \<and>
         map_of (jobs (updateChannel validate c s)) c = Some (length (tasks s)) \<and>
         armed_for c (updateChannel validate c s) = [length (tasks s)] \<and>
         tasks (updateChannel validate c s) ! length (tasks s) =
           \<lparr>task_expr = cronTime_of ch, task_channel = c, task_api_key = api_key ch,
             task_running = True\<rparr>"
proof -
  have w: "wf s" by (rule reachable_wf [OF assms(1)])
  note a = assms(2,3,4)
  have old: "\<forall>h0. map_of (jobs s) c = Some h0 \<longrightarrow>
            cron_calls (registerChannel validate c s) =
              cron_calls s @ [Stopped h0, Scheduled (length (tasks s)) (cronTime_of ch)] \<and>
            \<not> task_running (tasks (registerChannel validate c s) ! h0)"
  proof (intro allI impI)
    fix h0 assume j: "map_of (jobs s) c = Some h0"
    from wf_job [OF w j] have "h0 < length (tasks s)" by simp
    from register_stops_old [where validate = validate, OF a j this]
    show "cron_calls (registerChannel validate c s) =
              cron_calls s @ [Stopped h0, Scheduled (length (tasks s)) (cronTime_of ch)] \<and>
            \<not> task_running (tasks (registerChannel validate c s) ! h0)" by simp
  qed
  have d1: "sync_schedule ch = None \<or> sync_schedule ch = Some [] \<longrightarrow>
            cronTime_of ch = ''0 2 * * *''"
    by (auto simp: cronTime_of_def default_cron_def)
  have d2: "\<forall>e. sync_schedule ch = Some e \<and> e \<noteq> [] \<longrightarrow> cronTime_of ch = e"
    by (simp add: cronTime_of_def)
  show ?thesis
    by (intro conjI)
       (fact register_captures [where validate = validate, OF a] d1 d2 old
          armed_after_register [where validate = validate, OF w a]
          cron_calls_update [where validate = validate, OF a]
          update_captures [where validate = validate, OF a]
          armed_after_update [where validate = validate, OF w a])+
qed

theorem register_replaces_trigger_witness:
  "reachable example_validate example_rescheduled \<and>
   channel_by_id ''A'' (wld example_rescheduled) =
     [\<lparr>ch_id = ''A'', sync_schedule = Some ''0 */6 * * *'', api_key = ''k1'',
       sync_enabled = True\<rparr>] \<and>
   example_validate ''0 */6 * * *'' = None \<and>
   map_of (jobs example_rescheduled) ''A'' = Some 0 \<and>
   length (tasks example_rescheduled) = 3 \<and>
   cron_calls (updateChannel example_validate ''A'' example_rescheduled) =
     cron_calls example_rescheduled @ [Stopped 0, Scheduled 3 ''0 */6 * * *''] \<and>
   armed_for ''A'' (updateChannel example_validate ''A'' example_rescheduled) = [3] \<and>
   tasks (updateChannel example_validate ''A'' example_rescheduled) ! 3 =
     \<lparr>task_expr = ''0 */6 * * *'', task_channel = ''A'', task_api_key = ''k1'',
       task_running = True\<rparr>"
proof -
  have r: "reachable example_validate example_rescheduled"
    unfolding example_rescheduled_def example_started_def
    by (intro reachable.outside reachable.initialized reachable.created)
  have c: "channel_by_id ''A'' (wld example_rescheduled) =
     [\<lparr>ch_id = ''A'', sync_schedule = Some ''0 */6 * * *'', api_key = ''k1'',
       sync_enabled = True\<rparr>]"
    by (simp add: example_rescheduled_def channel_by_id_def)
  have e: "sync_enabled \<lparr>ch_id = ''A'', sync_schedule = Some ''0 */6 * * *'', api_key = ''k1'',
       sync_enabled = True\<rparr>"
    by simp
  have j: "map_of (jobs example_rescheduled) ''A'' = Some 0"
    and l: "length (tasks example_rescheduled) = 3"
    by (simp_all add: example_rescheduled_def example_started_eq)
  have t: "cronTime_of \<lparr>ch_id = ''A'', sync_schedule = Some ''0 */6 * * *'', api_key = ''k1'',
       sync_enabled = True\<rparr> = ''0 */6 * * *''"
    by (simp add: cronTime_of_def)
  have v: "example_validate ''0 */6 * * *'' = None"
    by (simp add: example_validate_def)
  have v': "example_validate (cronTime_of \<lparr>ch_id = ''A'', sync_schedule = Some ''0 */6 * * *'',
       api_key = ''k1'', sync_enabled = True\<rparr>) = None"
    unfolding t by (rule v)
  note eff = register_replaces_trigger [OF r c e v']
  have 1: "cron_calls (updateChannel example_validate ''A'' example_rescheduled) =
     cron_calls example_rescheduled @ [Stopped 0, Scheduled 3 ''0 */6 * * *'']"
    using eff [THEN conjunct2, THEN conjunct2, THEN conjunct2, THEN conjunct2, THEN conjunct2,
               THEN conjunct2, THEN conjunct1]
    by (simp add: j l t)
  have 2: "armed_for ''A'' (updateChannel example_validate ''A'' example_rescheduled) = [3]"
    using eff [THEN conjunct2, THEN conjunct2, THEN conjunct2, THEN conjunct2, THEN conjunct2,
               THEN conjunct2, THEN conjunct2, THEN conjunct2, THEN conjunct1]
    by (simp add: l)
  have 3: "tasks (updateChannel example_validate ''A'' example_rescheduled) ! 3 =
     \<lparr>task_expr = ''0 */6 * * *'', task_channel = ''A'', task_api_key = ''k1'',
       task_running = True\<rparr>"
    using eff [THEN conjunct2, THEN conjunct2, THEN conjunct2, THEN conjunct2, THEN conjunct2,
               THEN conjunct2, THEN conjunct2, THEN conjunct2, THEN conjunct2]
    by (simp add: l t)
  show ?thesis
    by (intro conjI) (fact r c v j l 1 2 3)+
qed

text \<open>
  C4 as stated fails: it promises one active trigger after \<^verbatim>\<open>updateChannel\<close> for
  every enabled channel. When the recurrence expression now in the channel table is one
  that node-cron refuses, \<^verbatim>\<open>cron.schedule\<close> throws after the old task has been stopped
  and its job deleted; the \<^verbatim>\<open>catch\<close> of \<^verbatim>\<open>registerChannel\<close> logs the error and
  returns. Channel A, enabled, had one running task; the request
  \<^verbatim>\<open>PUT /channels/A\<close> with \<^verbatim>\<open>syncSchedule = '61 2 * * *'\<close> is answered with status
  200 and leaves the channel with no running task and no job.
\<close>

theorem update_with_refused_expression_leaves_no_trigger:
  "reachable example_validate example_refused \<and>
   channel_by_id ''A'' (wld example_refused) =
     [\<lparr>ch_id = ''A'', sync_schedule = Some ''61 2 * * *'', api_key = ''k1'',
       sync_enabled = True\<rparr>] \<and>
   armed_for ''A'' example_refused = [0] \<and>
   put_channel example_validate ''A'' None (Some (Some ''61 2 * * *'')) None example_started =
     (Status 200 ''Channel updated successfully'',
      updateChannel example_validate ''A'' example_refused) \<and>
   armed_for ''A'' (updateChannel example_validate ''A'' example_refused) = [] \<and>
   map_of (jobs (updateChannel example_validate ''A'' example_refused)) ''A'' = None \<and>
   cron_calls (updateChannel example_validate ''A'' example_refused) =
     cron_calls example_refused @ [Stopped 0, Refused ''61 2 * * *''] \<and>
   console_error (updateChannel example_validate ''A'' example_refused) =
     [''Error registering channel A: 61 is a invalid expression for minute''] \<and>
   armed_for ''A'' (registerChannel example_validate ''A'' example_refused) = []"
proof -
  have r: "reachable example_validate example_refused"
    unfolding example_refused_def example_started_def
    by (intro reachable.outside reachable.initialized reachable.created)
  have c: "channel_by_id ''A'' (wld example_refused) =
     [\<lparr>ch_id = ''A'', sync_schedule = Some ''61 2 * * *'', api_key = ''k1'',
       sync_enabled = True\<rparr>]"
    by (simp add: example_refused_def channel_by_id_def)
  have a0: "armed_for ''A'' example_refused = [0]"
    by (simp add: example_refused_def example_started_eq armed_for_def upt_rec)
  have u: "updateChannel example_validate ''A'' example_refused =
     \<lparr>wld = wld example_refused,
      jobs = [(''B'', 1), (''C'', 2)],
      tasks =
        [\<lparr>task_expr = ''0 2 * * *'', task_channel = ''A'', task_api_key = ''k1'',
           task_running = False\<rparr>,
         \<lparr>task_expr = ''0 3 * * *'', task_channel = ''B'', task_api_key = ''k2'',
           task_running = True\<rparr>,
         \<lparr>task_expr = ''0 2 * * *'', task_channel = ''C'', task_api_key = ''k3'',
           task_running = True\<rparr>],
      cron_calls =
        [Scheduled 0 ''0 2 * * *'', Scheduled 1 ''0 3 * * *'', Scheduled 2 ''0 2 * * *'',
         Stopped 0, Refused ''61 2 * * *''],
      console_error =
        [''Error registering channel A: 61 is a invalid expression for minute'']\<rparr>"
    by (simp add: example_refused_def example_started_eq updateChannel_def
          unregisterChannel_def registerChannel_def channel_by_id_def cron_schedule_def
          example_validate_def cronTime_of_def job_stop_def Let_def)
  have g: "registerChannel example_validate ''A'' example_refused =
     \<lparr>wld = wld example_refused,
      jobs = [(''A'', 0), (''B'', 1), (''C'', 2)],
      tasks =
        [\<lparr>task_expr = ''0 2 * * *'', task_channel = ''A'', task_api_key = ''k1'',
           task_running = False\<rparr>,
         \<lparr>task_expr = ''0 3 * * *'', task_channel = ''B'', task_api_key = ''k2'',
           task_running = True\<rparr>,
         \<lparr>task_expr = ''0 2 * * *'', task_channel = ''C'', task_api_key = ''k3'',
           task_running = True\<rparr>],
      cron_calls =
        [Scheduled 0 ''0 2 * * *'', Scheduled 1 ''0 3 * * *'', Scheduled 2 ''0 2 * * *'',
         Stopped 0, Refused ''61 2 * * *''],
      console_error =
        [''Error registering channel A: 61 is a invalid expression for minute'']\<rparr>"
    by (simp add: example_refused_def example_started_eq
          registerChannel_def channel_by_id_def cron_schedule_def
          example_validate_def cronTime_of_def job_stop_def Let_def)
  have p: "put_channel example_validate ''A'' None (Some (Some ''61 2 * * *'')) None
             example_started =
     (Status 200 ''Channel updated successfully'',
      updateChannel example_validate ''A'' example_refused)"
    by (simp add: put_channel_def set_columns_def example_refused_def example_started_eq
          example_world_def channel_by_id_def Let_def)
  have 1: "armed_for ''A'' (updateChannel example_validate ''A'' example_refused) = []"
    unfolding u by (simp add: armed_for_def upt_rec)
  have 2: "map_of (jobs (updateChannel example_validate ''A'' example_refused)) ''A'' = None"
    unfolding u by simp
  have 3: "cron_calls (updateChannel example_validate ''A'' example_refused) =
     cron_calls example_refused @ [Stopped 0, Refused ''61 2 * * *'']"
    unfolding u by (simp add: example_refused_def example_started_eq)
  have 4: "console_error (updateChannel example_validate ''A'' example_refused) =
     [''Error registering channel A: 61 is a invalid expression for minute'']"
    unfolding u by simp
  have 5: "armed_for ''A'' (registerChannel example_validate ''A'' example_refused) = []"
    unfolding g by (simp add: armed_for_def upt_rec)
  show ?thesis
    by (intro conjI) (fact r c a0 p 1 2 3 4 5)+
qed

section \<open>Start-up\<close>

lemma jobs_register_other:
  assumes "c' \<noteq> c"
  shows "map_of (jobs (registerChannel validate c' s)) c = map_of (jobs s) c"
proof (cases "channel_by_id c' (wld s)")
  case Nil
  then show ?thesis by (simp add: registerChannel_def)
next
  case (Cons ch rest)
  show ?thesis
  proof (cases "sync_enabled ch")
    case False
    with Cons show ?thesis by (simp add: registerChannel_def)
  next
    case True
    show ?thesis
    proof (cases "validate (cronTime_of ch)")
      case None
      show ?thesis
        unfolding registerChannel_accepted [where validate = validate, OF Cons True None]
        using assms by (simp add: Let_def update_conv' split: option.splits)
    next
      case (Some e)
      obtain msg where e: "e = Error msg" by (cases e)
      show ?thesis
        unfolding registerChannel_refused [where validate = validate, OF Cons True Some [unfolded e]]
        by (simp add: Let_def split: option.splits)
    qed
  qed
qed

lemma tasks_register:
  "length (tasks s) \<le> length (tasks (registerChannel validate c' s)) \<and>
   (\<forall>h < length (tasks s).
      task_channel (tasks (registerChannel validate c' s) ! h) = task_channel (tasks s ! h)) \<and>
   (\<forall>h. length (tasks s) \<le> h \<and> h < length (tasks (registerChannel validate c' s)) \<longrightarrow>
      task_channel (tasks (registerChannel validate c' s) ! h) = c')"
proof (cases "channel_by_id c' (wld s)")
  case Nil
  then show ?thesis by (auto simp: registerChannel_def)
next
  case (Cons ch rest)
  show ?thesis
  proof (cases "sync_enabled ch")
    case False
    with Cons show ?thesis by (auto simp: registerChannel_def)
  next
    case True
    show ?thesis
    proof (cases "validate (cronTime_of ch)")
      case None
      show ?thesis
        unfolding registerChannel_accepted [where validate = validate, OF Cons True None]
        by (cases "map_of (jobs s) c'")
           (auto simp: Let_def nth_append stop_keeps_channel less_Suc_eq)
    next
      case (Some e)
      obtain msg where e: "e = Error msg" by (cases e)
      show ?thesis
        unfolding registerChannel_refused [where validate = validate, OF Cons True Some [unfolded e]]
        by (cases "map_of (jobs s) c'") (auto simp: Let_def stop_keeps_channel)
    qed
  qed
qed

lemma fold_register:
  "wld (fold (registerChannel validate) cs s) = wld s \<and>
   (c \<notin> set cs \<longrightarrow> map_of (jobs (fold (registerChannel validate) cs s)) c = map_of (jobs s) c) \<and>
   length (tasks s) \<le> length (tasks (fold (registerChannel validate) cs s)) \<and>
   (\<forall>h < length (tasks s).
      task_channel (tasks (fold (registerChannel validate) cs s) ! h) = task_channel (tasks s ! h)) \<and>
   (\<forall>h. length (tasks s) \<le> h \<and> h < length (tasks (fold (registerChannel validate) cs s)) \<longrightarrow>
      task_channel (tasks (fold (registerChannel validate) cs s) ! h) \<in> set cs)"
proof (induction cs arbitrary: s)
  case Nil
  show ?case by simp
next
  case (Cons c' cs)
  let ?s1 = "registerChannel validate c' s"
  let ?r = "fold (registerChannel validate) cs ?s1"
  note IH = Cons.IH [of ?s1]
  note T = tasks_register [of s validate c']
  have 1: "wld ?r = wld s" using IH by (simp add: wld_register)
  have 2: "c \<notin> set (c' # cs) \<longrightarrow> map_of (jobs ?r) c = map_of (jobs s) c"
    using IH jobs_register_other [of c' c validate s] by auto
  have 3: "length (tasks s) \<le> length (tasks ?r)" using IH T by linarith
  have 4: "task_channel (tasks ?r ! h) = task_channel (tasks s ! h)" if "h < length (tasks s)" for h
  proof -
    from that T have "h < length (tasks ?s1)" by linarith
    with IH have "task_channel (tasks ?r ! h) = task_channel (tasks ?s1 ! h)" by blast
    with T that show ?thesis by simp
  qed
  have 5: "task_channel (tasks ?r ! h) \<in> set (c' # cs)"
    if "length (tasks s) \<le> h \<and> h < length (tasks ?r)" for h
  proof (cases "h < length (tasks ?s1)")
    case True
    with IH have "task_channel (tasks ?r ! h) = task_channel (tasks ?s1 ! h)" by blast
    with T that True show ?thesis by simp
  next
    case False
    with IH that have "task_channel (tasks ?r ! h) \<in> set cs" by simp
    then show ?thesis by simp
  qed
  from 1 2 3 4 5 show ?case by simp
qed

text \<open>
  C5. For a channel with no enabled row in the channel table (a disabled channel, or one
  that does not exist): after \<^verbatim>\<open>initialize\<close> on a new scheduler the job map has no
  entry for it and no task is running for it; and from any state, \<^verbatim>\<open>initialize\<close>
  leaves its entry of the job map as it was and creates no task for it.
\<close>

theorem initialize_skips_disabled:
  assumes "c \<notin> ch_id ` set (enabled_channels w)"
  shows "map_of (jobs (initialize validate (new_Scheduler w))) c = None \<and>
         armed_for c (initialize validate (new_Scheduler w)) = [] \<and>
         (\<forall>s. wld s = w \<longrightarrow>
            map_of (jobs (initialize validate s)) c = map_of (jobs s) c \<and>
            (\<forall>h. length (tasks s) \<le> h \<and> h < length (tasks (initialize validate s)) \<longrightarrow>
               task_channel (tasks (initialize validate s) ! h) \<noteq> c))"
proof -
  have gen: "map_of (jobs (initialize validate s)) c = map_of (jobs s) c \<and>
            (\<forall>h. length (tasks s) \<le> h \<and> h < length (tasks (initialize validate s)) \<longrightarrow>
               task_channel (tasks (initialize validate s) ! h) \<noteq> c)" if "wld s = w" for s
  proof -
    let ?cs = "map ch_id (enabled_channels (wld s))"
    from assms that have n: "c \<notin> set ?cs" by simp
    note F = fold_register [of validate ?cs s c]
    from F n have a: "map_of (jobs (initialize validate s)) c = map_of (jobs s) c"
      by (simp add: initialize_def)
    have b: "task_channel (tasks (initialize validate s) ! h) \<noteq> c"
      if "length (tasks s) \<le> h \<and> h < length (tasks (initialize validate s))" for h
    proof -
      from F that have "task_channel (tasks (initialize validate s) ! h) \<in> set ?cs"
        unfolding initialize_def by blast
      with n show ?thesis by metis
    qed
    from a b show ?thesis by blast
  qed
  have fresh: "wld (new_Scheduler w) = w" "map_of (jobs (new_Scheduler w)) c = None"
    by (simp_all add: new_Scheduler_def)
  from gen [OF fresh(1)] fresh(2)
  have j: "map_of (jobs (initialize validate (new_Scheduler w))) c = None" by simp
  have "armed_for c (initialize validate (new_Scheduler w)) = []"
    by (simp add: armed_for_wf [OF wf_initialize [OF wf_new]] j)
  with j gen show ?thesis by blast
qed

theorem initialize_skips_disabled_witness:
  "''D'' \<notin> ch_id ` set (enabled_channels example_world) \<and>
   map_of (jobs (initialize example_validate (new_Scheduler example_world))) ''D'' = None \<and>
   armed_for ''D'' (initialize example_validate (new_Scheduler example_world)) = []"
proof -
  have h: "''D'' \<notin> ch_id ` set (enabled_channels example_world)"
    by (simp add: enabled_channels_def example_world_def)
  from initialize_skips_disabled [OF h] h show ?thesis by blast
qed

section \<open>A manual run of all enabled channels\<close>

lemma sync_rows_length:
  "sync_rows svc ty rows acc w = (Inr rs, w') \<Longrightarrow> length rs = length acc + length rows"
proof (induction rows arbitrary: acc w)
  case Nil
  then show ?case by simp
next
  case (Cons ch rows)
  then show ?case
    by (cases "sync_by_type svc ty (ch_id ch) (api_key ch) w")
       (auto split: sum.splits)
qed

lemma sync_rows_append:
  "sync_rows svc ty pre acc w = (Inr rs, w1) \<Longrightarrow>
   sync_rows svc ty (pre @ rest) acc w = sync_rows svc ty rest rs w1"
proof (induction pre arbitrary: acc w)
  case Nil
  then show ?case by simp
next
  case (Cons ch pre)
  then show ?case
    by (cases "sync_by_type svc ty (ch_id ch) (api_key ch) w")
       (auto split: sum.splits)
qed

lemma sync_rows_first_failure:
  assumes "sync_rows svc ty pre [] w = (Inr rs, w1)"
    and "sync_by_type svc ty (ch_id ch) (api_key ch) w1 = (Inl e, w2)"
  shows "sync_rows svc ty (pre @ ch # post) [] w = (Inl e, w2)"
  using assms(2) by (simp add: sync_rows_append [OF assms(1)])

text \<open>
  C2, as amended. \<^verbatim>\<open>triggerManualSync(syncType)\<close> with no channel runs the enabled
  channels one after the other in the order of the query. When every run returns, the
  call returns the number of enabled channels. When the runs of the channels before
  one return and the run of that one raises, the call raises the same error, with the
  world as that run left it: the channels after it are not run and no count is
  returned.
\<close>

theorem manual_sync_all_stops_at_first_failure:
  "(\<forall>rs w'. sync_rows svc ty (enabled_channels (wld s)) [] (wld s) = (Inr rs, w') \<longrightarrow>
      triggerManualSync svc ty None s =
        (Inr (All_channels True (length (enabled_channels (wld s)))), s\<lparr>wld := w'\<rparr>)) \<and>
   (\<forall>pre ch post rs w1 msg w2.
      enabled_channels (wld s) = pre @ ch # post \<and>
      sync_rows svc ty pre [] (wld s) = (Inr rs, w1) \<and>
      sync_by_type svc ty (ch_id ch) (api_key ch) w1 = (Inl (Error msg), w2) \<longrightarrow>
      triggerManualSync svc ty None s =
        (Inl (Error msg),
         s\<lparr>wld := w2, console_error := console_error s @ [''Manual sync failed: '' @ msg]\<rparr>))"
proof (intro conjI allI impI)
  fix rs w'
  assume a: "sync_rows svc ty (enabled_channels (wld s)) [] (wld s) = (Inr rs, w')"
  from sync_rows_length [OF a] a
  show "triggerManualSync svc ty None s =
        (Inr (All_channels True (length (enabled_channels (wld s)))), s\<lparr>wld := w'\<rparr>)"
    by (simp add: triggerManualSync_def falsy_def sync_all_enabled_def)
next
  fix pre ch post rs w1 msg w2
  assume a: "enabled_channels (wld s) = pre @ ch # post \<and>
      sync_rows svc ty pre [] (wld s) = (Inr rs, w1) \<and>
      sync_by_type svc ty (ch_id ch) (api_key ch) w1 = (Inl (Error msg), w2)"
  then have "sync_rows svc ty (enabled_channels (wld s)) [] (wld s) = (Inl (Error msg), w2)"
    using sync_rows_first_failure [of svc ty pre "wld s" rs w1 ch "Error msg" w2 post] by simp
  then show "triggerManualSync svc ty None s =
        (Inl (Error msg),
         s\<lparr>wld := w2, console_error := console_error s @ [''Manual sync failed: '' @ msg]\<rparr>)"
    by (simp add: triggerManualSync_def falsy_def sync_all_enabled_def)
qed

lemma example_run_A:
  "sync_by_type (spec_service example_pipeline) ''incremental'' ''A'' ''k1'' example_world =
     (Inr Completed, after_A)"
  by (simp add: spec_run_defs example_pipeline_def example_world_def after_A_def)

lemma example_run_B:
  "sync_by_type (spec_service example_pipeline) ''incremental'' ''B'' ''k2'' after_A =
     (Inl (Error ''quota exceeded''), after_B)"
  by (simp add: spec_run_defs example_pipeline_def example_world_def after_A_def after_B_def)

lemma example_enabled:
  "enabled_channels example_world =
     [\<lparr>ch_id = ''A'', sync_schedule = None, api_key = ''k1'', sync_enabled = True\<rparr>,
      \<lparr>ch_id = ''B'', sync_schedule = Some ''0 3 * * *'', api_key = ''k2'', sync_enabled = True\<rparr>,
      \<lparr>ch_id = ''C'', sync_schedule = Some [], api_key = ''k3'', sync_enabled = True\<rparr>]"
  by (simp add: enabled_channels_def example_world_def)

lemma calm_runs:
  "fst (sync_rows (spec_service calm_pipeline) ''incremental''
          (enabled_channels example_world) [] example_world) =
     Inr [Completed, Completed, Completed]"
  unfolding example_enabled
  by (simp add: spec_run_defs calm_pipeline_def example_world_def)

theorem manual_sync_all_stops_at_first_failure_witness:
  "fst (triggerManualSync (spec_service calm_pipeline) ''incremental'' None
          (new_Scheduler example_world)) = Inr (All_channels True 3) \<and>
   triggerManualSync (spec_service example_pipeline) ''incremental'' None
          (new_Scheduler example_world) =
     (Inl (Error ''quota exceeded''),
      (new_Scheduler example_world)
        \<lparr>wld := after_B, console_error := [''Manual sync failed: quota exceeded'']\<rparr>)"
proof -
  let ?calm = "spec_service calm_pipeline"
  let ?svc = "spec_service example_pipeline"
  let ?s = "new_Scheduler example_world"
  let ?A = "\<lparr>ch_id = ''A'', sync_schedule = None, api_key = ''k1'', sync_enabled = True\<rparr>"
  let ?B = "\<lparr>ch_id = ''B'', sync_schedule = Some ''0 3 * * *'', api_key = ''k2'',
             sync_enabled = True\<rparr>"
  let ?C = "\<lparr>ch_id = ''C'', sync_schedule = Some [], api_key = ''k3'', sync_enabled = True\<rparr>"
  let ?r = "sync_rows ?calm ''incremental'' (enabled_channels (wld ?s)) [] (wld ?s)"
  have "?r = (Inr [Completed, Completed, Completed], snd ?r)"
    using calm_runs by (simp add: prod_eq_iff new_Scheduler_def)
  from manual_sync_all_stops_at_first_failure
         [of ?calm "''incremental''" ?s, THEN conjunct1, rule_format, OF this]
  have all: "fst (triggerManualSync ?calm ''incremental'' None ?s) = Inr (All_channels True 3)"
    by (simp add: new_Scheduler_def example_enabled)
  have 1: "enabled_channels (wld ?s) = [?A] @ ?B # [?C]"
    by (simp add: new_Scheduler_def example_enabled)
  have 2: "sync_rows ?svc ''incremental'' [?A] [] (wld ?s) = (Inr [Completed], after_A)"
    by (simp add: new_Scheduler_def example_run_A)
  have 3: "sync_by_type ?svc ''incremental'' (ch_id ?B) (api_key ?B) after_A =
             (Inl (Error ''quota exceeded''), after_B)"
    by (simp add: example_run_B)
  from manual_sync_all_stops_at_first_failure
         [of ?svc "''incremental''" ?s, THEN conjunct2, rule_format,
          of "[?A]" ?B "[?C]" "[Completed]" after_A "''quota exceeded''" after_B]
       1 2 3
  have stop: "triggerManualSync ?svc ''incremental'' None ?s =
     (Inl (Error ''quota exceeded''),
      ?s\<lparr>wld := after_B, console_error := [''Manual sync failed: quota exceeded'']\<rparr>)"
    by (simp add: new_Scheduler_def)
  show ?thesis by (intro conjI) (fact all stop)+
qed

text \<open>
  C2 as stated fails: with enabled channels A, B, C and a pipeline that raises for B, the
  call raises the error of B instead of reporting 3, and the run log holds a record for
  A and for B and none for C.
\<close>

theorem manual_sync_all_aborts_at_B:
  "map ch_id (enabled_channels example_world) = [''A'', ''B'', ''C''] \<and>
   fst (triggerManualSync (spec_service example_pipeline) ''incremental'' None
          (new_Scheduler example_world)) = Inl (Error ''quota exceeded'') \<and>
   map (\<lambda>r. (channel_id r, status r))
     (sync_log (wld (snd (triggerManualSync (spec_service example_pipeline)
        ''incremental'' None (new_Scheduler example_world))))) =
     [(''A'', Completed), (''B'', Failed)]"
  by (simp add: triggerManualSync_def falsy_def sync_all_enabled_def new_Scheduler_def
        example_enabled example_run_A example_run_B)
     (simp add: after_B_def)

section \<open>One run at a time per entity\<close>









text \<open>A flag is consumed once: the second \<^verbatim>\<open>consume\<close> of an entity returns false.\<close>

lemma consume_twice: "fst (consume c (snd (consume c w))) = False"
  by (simp add: consume_def flagged_def delete_conv')













end
